theory Spec2Isabelle
  imports Main "HOL-Library.Word"
begin

section \<open>Bytes and strings\<close>

text \<open>
  Both \<^verbatim>\<open>std::string\<close> and \<^verbatim>\<open>std::vector<uint8_t>\<close> are sequences of 8-bit bytes;
  they are modelled as \<^typ>\<open>string\<close> (a list of \<^typ>\<open>char\<close>, each one byte). Byte counts
  (\<^verbatim>\<open>uint64_t\<close>, \<^verbatim>\<open>size_t\<close>) are \<^typ>\<open>nat\<close>: they are lengths of buffers that exist,
  and none of the code below does arithmetic that could wrap on them. Handles and
  offsets into host memory are \<^typ>\<open>64 word\<close>.
\<close>

definition NUL :: char where
  "NUL = CHR 0x00"

definition DQ :: char where
  "DQ = CHR 0x22"

text \<open>The index of the first occurrence of \<open>pat\<close> in a byte sequence, if any.\<close>

fun find_sub :: "string \<Rightarrow> string \<Rightarrow> nat option" where
  "find_sub pat [] = (if pat = [] then Some 0 else None)"
| "find_sub pat (c # cs) =
     (if take (length pat) (c # cs) = pat then Some 0
      else map_option Suc (find_sub pat cs))"

text \<open>
  \<^verbatim>\<open>std::string::find(pat, pos)\<close>: the first occurrence at or after \<open>pos\<close>;
  \<open>None\<close> is \<^verbatim>\<open>npos\<close>. A start beyond the end finds nothing.
\<close>

definition string_find :: "string \<Rightarrow> string \<Rightarrow> nat \<Rightarrow> nat option" where
  "string_find s pat pos =
     (if pos > length s then None
      else map_option (\<lambda>i. pos + i) (find_sub pat (drop pos s)))"

text \<open>
  The same call when the start position is itself the result of an earlier
  \<^verbatim>\<open>find\<close>: \<^verbatim>\<open>npos\<close> is larger than any size, so the search finds nothing.
\<close>

definition string_find_at :: "string \<Rightarrow> string \<Rightarrow> nat option \<Rightarrow> nat option" where
  "string_find_at s pat pos = (case pos of None \<Rightarrow> None | Some p \<Rightarrow> string_find s pat p)"

text \<open>
  Exceptions derived from \<^verbatim>\<open>std::exception\<close>, with their \<^verbatim>\<open>what()\<close> text. The
  text of \<^verbatim>\<open>std::out_of_range\<close> is the library's choice.
\<close>

datatype exn = Out_of_range | Runtime_error string

fun what :: "exn \<Rightarrow> string" where
  "what Out_of_range = ''basic_string''"
| "what (Runtime_error msg) = msg"

text \<open>\<^verbatim>\<open>std::string::substr(pos, n)\<close> throws when \<open>pos\<close> is beyond the end.\<close>

definition substr :: "string \<Rightarrow> nat \<Rightarrow> nat \<Rightarrow> exn + string" where
  "substr s pos n = (if pos > length s then Inl Out_of_range else Inr (take n (drop pos s)))"

subsection \<open>C strings\<close>

text \<open>
  A \<^verbatim>\<open>char *\<close> is a buffer together with an index into it; the C string it denotes
  runs up to the first NUL byte.
\<close>

definition c_str :: "string \<Rightarrow> string" where
  "c_str buf = takeWhile (\<lambda>c. c \<noteq> NUL) buf"

definition strstr :: "string \<Rightarrow> nat \<Rightarrow> string \<Rightarrow> nat option" where
  "strstr buf p pat = map_option (\<lambda>i. p + i) (find_sub pat (c_str (drop p buf)))"

definition strchr :: "string \<Rightarrow> nat \<Rightarrow> char \<Rightarrow> nat option" where
  "strchr buf p c =
     (if c = NUL then Some (p + length (c_str (drop p buf)))
      else map_option (\<lambda>i. p + i) (find_sub [c] (c_str (drop p buf))))"

text \<open>
  \<^verbatim>\<open>malloc\<close> and \<^verbatim>\<open>strdup\<close> may fail. Whether the \<open>i\<close>-th allocation request of a
  call succeeds is a parameter \<open>heap_ok i\<close>.
\<close>

definition strdup :: "(nat \<Rightarrow> bool) \<Rightarrow> nat \<Rightarrow> string \<Rightarrow> string option" where
  "strdup heap_ok i s = (if heap_ok i then Some (c_str s @ [NUL]) else None)"

text \<open>
  \<^verbatim>\<open>snprintf(buf, size, fmt, ...)\<close>, given the fully formatted text: at most
  \<open>size - 1\<close> bytes are stored, followed by the terminator.
\<close>

definition snprintf :: "nat \<Rightarrow> string \<Rightarrow> string" where
  "snprintf sz formatted = take (sz - 1) formatted @ [NUL]"

text \<open>Copying \<open>src\<close> over the beginning of a buffer.\<close>

definition write_bytes :: "string \<Rightarrow> string \<Rightarrow> string" where
  "write_bytes src buf = src @ drop (length src) buf"

section \<open>The host\<close>

datatype log_level = Debug | Info | Warn | Error

datatype call =
    Call_input_length
  | Call_input_load_u8 nat nat
  | Call_input_get
  | Call_output_set string
  | Call_error_set string
  | Call_alloc nat "64 word"
  | Call_free "64 word"
  | Call_length "64 word"
  | Call_load_u8 "64 word" nat nat
  | Call_http_request "64 word"
  | Call_config_get string
  | Call_var_get string
  | Call_var_set string string
  | Call_log log_level string

text \<open>
  The host runtime is not part of the repository; the guest only sees the imported
  functions declared in \<^verbatim>\<open>extism_pdk.h\<close>. Its state is modelled from the spec: the input
  of the current call, the output and the error message set so far, the variable store and
  the configuration (names mapped to byte buffers), and the memory blocks it has handed
  out. What the spec leaves to the host is a parameter of the state: \<open>handles\<close> gives the
  handle of the \<open>k\<close>-th block the host creates, \<open>http_host\<close> what an HTTP request
  answers (status, response handle) and how it changes the variable store. \<open>calls\<close> is
  the log of the imported functions invoked so far, in order.
\<close>

record host =
  the_input :: string
  the_output :: "string option"
  the_error :: "string option"
  var_store :: "string \<rightharpoonup> string"
  config_store :: "string \<rightharpoonup> string"
  mem :: "64 word \<rightharpoonup> string"
  handles :: "nat \<Rightarrow> 64 word"
  nblocks :: nat
  http_host :: "(string \<rightharpoonup> string) \<Rightarrow> (32 word \<times> 64 word) \<times> (string \<rightharpoonup> string)"
  calls :: "call list"

definition record_call :: "call \<Rightarrow> host \<Rightarrow> host" where
  "record_call c h = h\<lparr>calls := calls h @ [c]\<rparr>"

text \<open>Modelled from the spec: the host creates a block holding \<open>bs\<close> and returns its handle.\<close>

definition new_block :: "string \<Rightarrow> host \<Rightarrow> 64 word \<times> host" where
  "new_block bs h =
     (let p = handles h (nblocks h)
      in (p, h\<lparr>mem := (mem h)(p \<mapsto> bs), nblocks := Suc (nblocks h)\<rparr>))"

text \<open>Modelled from the spec: \<^verbatim>\<open>extism_input_length\<close>, the length of the plugin input.\<close>

definition extism_input_length :: "host \<Rightarrow> nat \<times> host" where
  "extism_input_length h = (length (the_input h), record_call Call_input_length h)"

text \<open>
  Modelled from the spec: \<^verbatim>\<open>extism_input_load_u8(offset, length, buffer)\<close> copies the
  input bytes \<open>[offset, offset + length)\<close> into the guest's buffer.
\<close>

definition extism_input_load_u8 :: "nat \<Rightarrow> nat \<Rightarrow> string \<Rightarrow> host \<Rightarrow> string \<times> host" where
  "extism_input_load_u8 off len buffer h =
     (write_bytes (take len (drop off (the_input h))) buffer,
      record_call (Call_input_load_u8 off len) h)"

text \<open>
  Modelled from the spec: \<^verbatim>\<open>extism_input_get(&length)\<close> of the C kit returns the input
  bytes and stores their count.
\<close>

definition extism_input_get :: "host \<Rightarrow> (string \<times> nat) \<times> host" where
  "extism_input_get h = ((the_input h, length (the_input h)), record_call Call_input_get h)"

text \<open>Modelled from the spec: \<^verbatim>\<open>extism_output_set(data, length)\<close> sets the plugin output.\<close>

definition extism_output_set :: "string \<Rightarrow> host \<Rightarrow> host" where
  "extism_output_set data h = record_call (Call_output_set data) (h\<lparr>the_output := Some data\<rparr>)"

text \<open>Modelled from the spec: \<^verbatim>\<open>extism_error_set(data, length)\<close> sets the error message.\<close>

definition extism_error_set :: "string \<Rightarrow> host \<Rightarrow> host" where
  "extism_error_set data h = record_call (Call_error_set data) (h\<lparr>the_error := Some data\<rparr>)"

text \<open>Modelled from the spec: the four logging imports emit one line at their severity.\<close>

definition extism_log_debug :: "string \<Rightarrow> host \<Rightarrow> host" where
  "extism_log_debug message h = record_call (Call_log Debug message) h"

definition extism_log_info :: "string \<Rightarrow> host \<Rightarrow> host" where
  "extism_log_info message h = record_call (Call_log Info message) h"

definition extism_log_warn :: "string \<Rightarrow> host \<Rightarrow> host" where
  "extism_log_warn message h = record_call (Call_log Warn message) h"

definition extism_log_error :: "string \<Rightarrow> host \<Rightarrow> host" where
  "extism_log_error message h = record_call (Call_log Error message) h"

text \<open>
  Modelled from the spec: \<^verbatim>\<open>extism_alloc(size)\<close> creates a block of \<open>size\<close> bytes and
  returns its offset. The host is treated as always succeeding.
\<close>

definition extism_alloc :: "nat \<Rightarrow> host \<Rightarrow> 64 word \<times> host" where
  "extism_alloc sz h =
     (let (p, h') = new_block (replicate sz NUL) h
      in (p, record_call (Call_alloc sz p) h'))"

text \<open>Modelled from the spec: \<^verbatim>\<open>extism_free(pointer)\<close> releases the block at that offset.\<close>

definition extism_free :: "64 word \<Rightarrow> host \<Rightarrow> host" where
  "extism_free p h = record_call (Call_free p) (h\<lparr>mem := (mem h)(p := None)\<rparr>)"

text \<open>
  Modelled from the spec: \<^verbatim>\<open>extism_length(pointer)\<close> is the length of the block at that
  offset by the host's bookkeeping (0 where there is none).
\<close>

definition extism_length :: "64 word \<Rightarrow> host \<Rightarrow> nat \<times> host" where
  "extism_length p h =
     ((case mem h p of None \<Rightarrow> 0 | Some bs \<Rightarrow> length bs), record_call (Call_length p) h)"

text \<open>
  Modelled from the spec: \<^verbatim>\<open>extism_load_u8(pointer, offset, length, buffer)\<close> copies the
  bytes \<open>[offset, offset + length)\<close> of the block into the guest's buffer.
\<close>

definition extism_load_u8 :: "64 word \<Rightarrow> nat \<Rightarrow> nat \<Rightarrow> string \<Rightarrow> host \<Rightarrow> string \<times> host" where
  "extism_load_u8 p off len buffer h =
     (write_bytes (take len (drop off (case mem h p of None \<Rightarrow> [] | Some bs \<Rightarrow> bs))) buffer,
      record_call (Call_load_u8 p off len) h)"

text \<open>
  Modelled from the spec: \<^verbatim>\<open>extism_var_get(name, name_length)\<close> looks the name up in the
  variable store. A variable that is not found is signalled by the zero handle; one that
  is found comes back as the handle of a block holding its bytes.
\<close>

definition extism_var_get :: "string \<Rightarrow> host \<Rightarrow> 64 word \<times> host" where
  "extism_var_get name h =
     (let h' = record_call (Call_var_get name) h
      in case var_store h' name of None \<Rightarrow> (0, h') | Some v \<Rightarrow> new_block v h')"

text \<open>
  Modelled from the spec: \<^verbatim>\<open>extism_var_set(name, name_length, value, value_length)\<close>
  maps the name to the given bytes in the variable store.
\<close>

definition extism_var_set :: "string \<Rightarrow> string \<Rightarrow> host \<Rightarrow> host" where
  "extism_var_set name v h =
     record_call (Call_var_set name v) (h\<lparr>var_store := (var_store h)(name \<mapsto> v)\<rparr>)"

text \<open>
  Modelled from the spec: \<^verbatim>\<open>extism_config_get(key, key_length)\<close> looks the key up in the
  configuration, with the same convention as for variables.
\<close>

definition extism_config_get :: "string \<Rightarrow> host \<Rightarrow> 64 word \<times> host" where
  "extism_config_get key h =
     (let h' = record_call (Call_config_get key) h
      in case config_store h' key of None \<Rightarrow> (0, h') | Some v \<Rightarrow> new_block v h')"

text \<open>
  Modelled from the spec: \<^verbatim>\<open>extism_http_request(request, &response)\<close>. The request is
  implicit in the variables set before the call; the host answers with a status and a
  response handle, and leaves the response fields in the variable store.
\<close>

definition extism_http_request :: "64 word \<Rightarrow> host \<Rightarrow> (32 word \<times> 64 word) \<times> host" where
  "extism_http_request request h =
     (let (answer, vars') = http_host h (var_store h)
      in (answer, record_call (Call_http_request request) (h\<lparr>var_store := vars'\<rparr>)))"

section \<open>The C++ wrapper layer (cpp-pdk/extism_pdk.h)\<close>

subsection \<open>Memory\<close>

record Memory =
  offset :: "64 word"
  length' :: nat

definition Memory_new :: "nat \<Rightarrow> host \<Rightarrow> Memory \<times> host" where
  \<comment> \<open>\<^verbatim>\<open>explicit Memory(uint64_t size)\<close>\<close>
  "Memory_new sz h =
     (let (p, h') = extism_alloc sz h
      in (\<lparr>offset = p, length' = sz\<rparr>, h'))"

definition Memory_delete :: "Memory \<Rightarrow> host \<Rightarrow> host" where
  \<comment> \<open>\<^verbatim>\<open>~Memory()\<close>\<close>
  "Memory_delete this h = extism_free (offset this) h"

definition Memory_move :: "Memory \<Rightarrow> Memory \<times> Memory" where
  \<comment> \<open>\<^verbatim>\<open>Memory(Memory&& other)\<close>: the new object and what is left of \<open>other\<close>\<close>
  "Memory_move other =
     (\<lparr>offset = offset other, length' = length' other\<rparr>,
      other\<lparr>offset := 0, length' := 0\<rparr>)"

definition Memory_move_assign :: "Memory \<Rightarrow> Memory \<Rightarrow> host \<Rightarrow> (Memory \<times> Memory) \<times> host" where
  \<comment> \<open>\<^verbatim>\<open>operator=(Memory&& other)\<close> when \<^verbatim>\<open>this != &other\<close>: the two objects afterwards\<close>
  "Memory_move_assign this other h =
     (let h' = (if offset this \<noteq> 0 then extism_free (offset this) h else h)
      in ((this\<lparr>offset := offset other, length' := length' other\<rparr>,
           other\<lparr>offset := 0, length' := 0\<rparr>), h'))"

text \<open>
  A program's use of the class: the objects created so far, by index, \<open>None\<close> once
  destroyed. An operation on an object that does not exist (any more) is not a program.
\<close>

type_synonym objects = "Memory option list"

datatype mem_op =
    Construct nat
  | Move_construct nat
  | Move_assign nat nat
  | Destroy nat

definition lookup :: "objects \<Rightarrow> nat \<Rightarrow> Memory option" where
  "lookup objs i = (if i < length objs then objs ! i else None)"

fun exec_op :: "mem_op \<Rightarrow> objects \<times> host \<Rightarrow> (objects \<times> host) option" where
  "exec_op (Construct sz) (objs, h) =
     (let (m, h') = Memory_new sz h in Some (objs @ [Some m], h'))"
| "exec_op (Move_construct i) (objs, h) =
     (case lookup objs i of
        None \<Rightarrow> None
      | Some other \<Rightarrow>
          (let (m, other') = Memory_move other
           in Some (objs[i := Some other'] @ [Some m], h)))"
| "exec_op (Move_assign t s) (objs, h) =
     (case lookup objs t of
        None \<Rightarrow> None
      | Some this \<Rightarrow>
          (case lookup objs s of
             None \<Rightarrow> None
           | Some other \<Rightarrow>
               if t \<noteq> s then
                 (let ((this', other'), h') = Memory_move_assign this other h
                  in Some (objs[t := Some this', s := Some other'], h'))
               else Some (objs, h)))"
| "exec_op (Destroy i) (objs, h) =
     (case lookup objs i of
        None \<Rightarrow> None
      | Some m \<Rightarrow> Some (objs[i := None], Memory_delete m h))"

fun run :: "mem_op list \<Rightarrow> objects \<times> host \<Rightarrow> (objects \<times> host) option" where
  "run [] st = Some st"
| "run (op # ops) st = (case exec_op op st of None \<Rightarrow> None | Some st' \<Rightarrow> run ops st')"

text \<open>The offsets \<^verbatim>\<open>extism_alloc\<close> returned and those passed to \<^verbatim>\<open>extism_free\<close>, from the call log.\<close>

fun alloc_rets :: "call list \<Rightarrow> 64 word list" where
  "alloc_rets [] = []"
| "alloc_rets (Call_alloc sz p # cs) = p # alloc_rets cs"
| "alloc_rets (c # cs) = alloc_rets cs"

fun frees :: "call list \<Rightarrow> 64 word list" where
  "frees [] = []"
| "frees (Call_free p # cs) = p # frees cs"
| "frees (c # cs) = frees cs"

text \<open>How many live objects hold the offset \<open>p\<close>.\<close>

definition holds :: "64 word \<Rightarrow> Memory option \<Rightarrow> bool" where
  "holds p x = (case x of None \<Rightarrow> False | Some m \<Rightarrow> offset m = p)"

definition holders :: "objects \<Rightarrow> 64 word \<Rightarrow> nat" where
  "holders objs p = length (filter (holds p) objs)"

text \<open>
  The accounting of an offset: the handles that hold it and the times it has been freed
  add up to the times it has been allocated.
\<close>

definition balanced :: "64 word \<Rightarrow> objects \<times> host \<Rightarrow> bool" where
  "balanced p st =
     (holders (fst st) p + count_list (frees (calls (snd st))) p =
      count_list (alloc_rets (calls (snd st))) p)"

subsection \<open>HTTP types\<close>

datatype HttpMethod = Get | Post | Put | Delete | Patch | Head | Options

fun http_method_to_string :: "HttpMethod \<Rightarrow> string" where
  "http_method_to_string Get = ''GET''"
| "http_method_to_string Post = ''POST''"
| "http_method_to_string Put = ''PUT''"
| "http_method_to_string Delete = ''DELETE''"
| "http_method_to_string Patch = ''PATCH''"
| "http_method_to_string Head = ''HEAD''"
| "http_method_to_string Options = ''OPTIONS''"

text \<open>
  \<open>headers\<close> is a \<^verbatim>\<open>std::map\<close>; it is given by its entries in iteration order
  (ascending keys, each key once). The field \<^verbatim>\<open>method\<close> is \<open>request_method\<close> here.
\<close>

record HttpRequest =
  request_method :: HttpMethod
  url :: string
  headers :: "(string \<times> string) list"
  body :: "string option"

record HttpResponse =
  ptr :: "64 word"

subsection \<open>Host\<close>

definition input :: "host \<Rightarrow> string \<times> host" where
  "input h =
     (let (len, h1) = extism_input_length h
      in extism_input_load_u8 0 len (replicate len NUL) h1)"

definition input_string :: "host \<Rightarrow> string \<times> host" where
  "input_string h = input h"

definition output_string :: "string \<Rightarrow> host \<Rightarrow> host" where
  "output_string str h = extism_output_set str h"

definition error :: "string \<Rightarrow> host \<Rightarrow> host" where
  "error message h = extism_error_set message h"

definition log_info :: "string \<Rightarrow> host \<Rightarrow> host" where
  "log_info message h = extism_log_info message h"

definition log_debug :: "string \<Rightarrow> host \<Rightarrow> host" where
  "log_debug message h = extism_log_debug message h"

definition config :: "string \<Rightarrow> host \<Rightarrow> string option \<times> host" where
  "config key h =
     (let (p, h1) = extism_config_get key h
      in if p = 0 then (None, h1)
         else
           (let (len, h2) = extism_length p h1;
                (data, h3) = extism_load_u8 p 0 len (replicate len NUL) h2;
                h4 = extism_free p h3
            in (Some data, h4)))"

definition var_get :: "string \<Rightarrow> host \<Rightarrow> string option \<times> host" where
  "var_get name h =
     (let (p, h1) = extism_var_get name h
      in if p = 0 then (None, h1)
         else
           (let (len, h2) = extism_length p h1;
                (data, h3) = extism_load_u8 p 0 len (replicate len NUL) h2;
                h4 = extism_free p h3
            in (Some data, h4)))"

definition var_set :: "string \<Rightarrow> string \<Rightarrow> host \<Rightarrow> host" where
  "var_set name v h = extism_var_set name v h"

definition var_set_string :: "string \<Rightarrow> string \<Rightarrow> host \<Rightarrow> host" where
  "var_set_string name v h = extism_var_set name v h"

text \<open>
  \<^verbatim>\<open>Host::http_request\<close>, in two parts: the variables set before the call of the
  host's request primitive, and the call with what follows it.
\<close>

definition http_request_vars :: "HttpRequest \<Rightarrow> host \<Rightarrow> host" where
  "http_request_vars request h0 =
     (let h1 = var_set_string ''request:method'' (http_method_to_string (request_method request)) h0;
          h2 = var_set_string ''request:url'' (url request) h1;
          h3 = fold (\<lambda>(key, v) h. var_set_string (''request:header:'' @ key) v h)
                 (headers request) h2
      in case body request of
           Some b \<Rightarrow> var_set ''request:body'' b h3
         | None \<Rightarrow> h3)"

definition http_request :: "HttpRequest \<Rightarrow> host \<Rightarrow> (exn + HttpResponse) \<times> host" where
  "http_request request h0 =
     (let h1 = http_request_vars request h0;
          ((status, response_ptr), h2) = extism_http_request 0 h1
      in if status \<noteq> 0 then (Inl (Runtime_error ''HTTP request failed''), h2)
         else (Inr \<lparr>ptr = response_ptr\<rparr>, h2))"

subsection \<open>HttpResponse\<close>

definition HttpResponse_body :: "HttpResponse \<Rightarrow> host \<Rightarrow> string \<times> host" where
  "HttpResponse_body this h =
     (let (body_ptr, h1) = extism_var_get ''response:body'' h
      in if body_ptr = 0 then ([], h1)
         else
           (let (len, h2) = extism_length body_ptr h1;
                (data, h3) = extism_load_u8 body_ptr 0 len (replicate len NUL) h2;
                h4 = extism_free body_ptr h3
            in (data, h4)))"

definition HttpResponse_header :: "HttpResponse \<Rightarrow> string \<Rightarrow> host \<Rightarrow> string option \<times> host" where
  "HttpResponse_header this name h =
     (let header_var = ''response:header:'' @ name;
          (header_ptr, h1) = extism_var_get header_var h
      in if header_ptr = 0 then (None, h1)
         else
           (let (len, h2) = extism_length header_ptr h1;
                (data, h3) = extism_load_u8 header_ptr 0 len (replicate len NUL) h2;
                h4 = extism_free header_ptr h3
            in (Some data, h4)))"

section \<open>The C++ example plugin (cpp-pdk/hello_plugin.cpp)\<close>

text \<open>The choice of the name, lines 25 to 50 of the source.\<close>

definition hello_cpp_name :: "string \<Rightarrow> exn + string" where
  \<open>hello_cpp_name inp =
     (if inp = [] then Inr ''World''
      else if string_find inp ''{'' 0 \<noteq> None \<and> string_find inp ''"name"'' 0 \<noteq> None then
        (let pos = string_find inp ''"name"'' 0;
             pos = string_find_at inp '':'' pos;
             pos = string_find_at inp ''"'' pos
         in case pos of
              None \<Rightarrow> Inr ''World''
            | Some p \<Rightarrow>
                (case string_find inp ''"'' (p + 1) of
                   None \<Rightarrow> Inr ''World''
                 | Some e \<Rightarrow> substr inp (p + 1) (e - p - 1)))
      else Inr inp)\<close>

text \<open>The body of the \<^verbatim>\<open>try\<close> block: an exception leaves with the host state reached.\<close>

definition hello_cpp_try :: "host \<Rightarrow> (exn \<times> host) + host" where
  \<open>hello_cpp_try h0 =
     (let h1 = log_debug ''Hello function called'' h0;
          (inp, h2) = input_string h1
      in case hello_cpp_name inp of
           Inl e \<Rightarrow> Inl (e, h2)
         | Inr name \<Rightarrow>
             (let greeting = ''Hello, '' @ name @ ''!'';
                  h3 = log_info (''Created greeting: '' @ greeting) h2;
                  result = ''{"greeting":"'' @ greeting @ ''"}'';
                  h4 = output_string result h3
              in Inr h4))\<close>

definition hello_cpp :: "host \<Rightarrow> 32 word \<times> host" where
  "hello_cpp h0 =
     (case hello_cpp_try h0 of
        Inr h \<Rightarrow> (0, h)
      | Inl (e, h) \<Rightarrow> (1, error (''Error in hello function: '' @ what e) h))"

section \<open>The C example plugin of the C++ kit (cpp-pdk/hello_plugin.c)\<close>

text \<open>
  The choice of the name, lines 43 to 78: \<open>input_buf\<close> is the NUL-terminated copy of
  the input. Allocation request 0 was the one for \<open>input_buf\<close>. The result is the
  \<^verbatim>\<open>name\<close> buffer, or \<open>None\<close> for a null pointer.
\<close>

definition hello_c_name :: "(nat \<Rightarrow> bool) \<Rightarrow> nat \<Rightarrow> string \<Rightarrow> string option" where
  \<open>hello_c_name heap_ok input_len input_buf =
     (if input_len > 2 \<and> input_buf ! 0 = CHR ''{'' \<and> strstr input_buf 0 ''"name"'' \<noteq> None then
        (case strstr input_buf 0 ''"name"'' of
           None \<Rightarrow> strdup heap_ok 1 (''World'' @ [NUL])
         | Some name_start \<Rightarrow>
             (case strchr input_buf name_start CHR '':'' of
                None \<Rightarrow> strdup heap_ok 1 (''World'' @ [NUL])
              | Some name_start \<Rightarrow>
                  (case strchr input_buf name_start DQ of
                     None \<Rightarrow> strdup heap_ok 1 (''World'' @ [NUL])
                   | Some name_start \<Rightarrow>
                       (let name_start = name_start + 1
                        in case strchr input_buf name_start DQ of
                             None \<Rightarrow> strdup heap_ok 1 (''World'' @ [NUL])
                           | Some name_end \<Rightarrow>
                               (let name_len = name_end - name_start
                                in if heap_ok 1
                                   then Some (take name_len (drop name_start input_buf) @ [NUL])
                                   else strdup heap_ok 2 (''World'' @ [NUL]))))))
      else strdup heap_ok 1 input_buf)\<close>

text \<open>Lines 83 to 104: the null check on the name, the log line and the output.\<close>

definition hello_c_finish :: "string option \<Rightarrow> host \<Rightarrow> 32 word \<times> host" where
  \<open>hello_c_finish name h =
     (case name of
        None \<Rightarrow> (1, extism_error_set ''Memory allocation failed'' h)
      | Some name \<Rightarrow>
          (let greeting_log = snprintf 256 (''Created greeting: Hello, '' @ c_str name @ ''!'');
               h1 = extism_log_info (c_str greeting_log) h;
               result = snprintf 256 (''{"greeting":"Hello, '' @ c_str name @ ''!"}'');
               h2 = extism_output_set (c_str result) h1
           in (0, h2)))\<close>

text \<open>
  The entry point. The bytes of a block fresh from \<^verbatim>\<open>malloc\<close> are unspecified; here
  each of them is written before it is read (the host fills the first \<open>input_len\<close>,
  the terminator is stored behind them), so the block starts as NUL bytes.
\<close>

definition hello_c :: "(nat \<Rightarrow> bool) \<Rightarrow> host \<Rightarrow> 32 word \<times> host" where
  \<open>hello_c heap_ok h0 =
     (let h1 = extism_log_debug ''Hello function called'' h0;
          (input_len, h2) = extism_input_length h1
      in if input_len = 0 then hello_c_finish (strdup heap_ok 0 (''World'' @ [NUL])) h2
         else if \<not> heap_ok 0 then (1, extism_error_set ''Memory allocation failed'' h2)
         else
           (let (input_buf, h3) = extism_input_load_u8 0 input_len (replicate (input_len + 1) NUL) h2;
                input_buf = input_buf[input_len := NUL]
            in hello_c_finish (hello_c_name heap_ok input_len input_buf) h3))\<close>

section \<open>The example plugin of the C kit (c-pdk/hello_plugin.c)\<close>

definition hello_cpdk :: "host \<Rightarrow> 32 word \<times> host" where
  \<open>hello_cpdk h0 =
     (let ((inp, input_length), h1) = extism_input_get h0;
          name_buf = replicate 256 NUL;
          name =
            (if input_length > 0 then
               (let max_len = (if input_length < 255 then input_length else 255);
                    name_buf = write_bytes (take max_len inp) name_buf;
                    name_buf = name_buf[max_len := NUL]
                in name_buf)
             else ''World'' @ [NUL]);
          output = snprintf 512 (''{"greeting":"Hello, '' @ c_str name @ ''!"}'');
          h2 = extism_output_set (c_str output) h1
      in (0, h2))\<close>

section \<open>Concrete hosts and requests\<close>

text \<open>
  A host that has just been started with the given input, variables and answer to HTTP
  requests; it numbers its blocks from 1.
\<close>

definition host_of :: "string \<Rightarrow> (string \<rightharpoonup> string) \<Rightarrow> 32 word \<Rightarrow> host" where
  "host_of inp vs st =
     \<lparr>the_input = inp, the_output = None, the_error = None, var_store = vs,
      config_store = vs, mem = Map.empty, handles = (\<lambda>k. word_of_nat (Suc k)), nblocks = 0,
      http_host = (\<lambda>vs'. ((st, 7), vs')), calls = []\<rparr>"

text \<open>The same host, except that it answers every allocation with offset 0.\<close>

definition null_host :: host where
  "null_host = (host_of [] Map.empty 0)\<lparr>handles := (\<lambda>k. 0)\<rparr>"

definition example_request :: HttpRequest where
  "example_request =
     \<lparr>request_method = Post, url = ''http://example.org/'',
      headers = [(''Accept'', ''*/*''), (''Host'', ''example.org'')], body = Some ''abc''\<rparr>"

text \<open>A freshly started host without variables, and one that was given an input.\<close>

definition fresh_host :: host where
  "fresh_host = host_of [] Map.empty 0"

definition input_host :: "string \<Rightarrow> host" where
  "input_host inp = host_of inp Map.empty 0"

text \<open>A guest heap on which every allocation succeeds.\<close>

definition heap_works :: "nat \<Rightarrow> bool" where
  "heap_works i = True"

text \<open>The objects and the host after a program on \<^verbatim>\<open>Memory\<close> objects, started without objects.\<close>

definition state_after :: "mem_op list \<Rightarrow> host \<Rightarrow> objects \<times> host" where
  "state_after ops h = (case run ops ([], h) of None \<Rightarrow> ([], h) | Some st \<Rightarrow> st)"

text \<open>The greeting as the plugins write it out.\<close>

definition greeting_json :: "string \<Rightarrow> string" where
  \<open>greeting_json name = ''{"greeting":"Hello, '' @ name @ ''!"}''\<close>

section \<open>Searching in byte sequences\<close>

lemma find_sub_Some:
  "find_sub pat xs = Some i \<Longrightarrow> i + length pat \<le> length xs \<and> take (length pat) (drop i xs) = pat"
proof (induction xs arbitrary: i)
  case Nil
  then show ?case by (simp split: if_splits)
next
  case (Cons x xs)
  show ?case
  proof (cases "take (length pat) (x # xs) = pat")
    case True
    with Cons.prems have "i = 0" by simp
    moreover have "length pat \<le> length (x # xs)"
    proof -
      have "length (take (length pat) (x # xs)) = length pat" using True by simp
      then show ?thesis by simp
    qed
    ultimately show ?thesis using True by simp
  next
    case False
    with Cons.prems obtain j where "find_sub pat xs = Some j" "i = Suc j" by auto
    with Cons.IH [of j] show ?thesis by simp
  qed
qed

lemma find_sub_single_None: "find_sub [c] xs = None \<longleftrightarrow> c \<notin> set xs"
  by (induction xs) auto

lemma find_sub_single_append: "c \<notin> set xs \<Longrightarrow> find_sub [c] (xs @ c # ys) = Some (length xs)"
  by (induction xs) auto

text \<open>
  A byte that does not occur in the pattern separates the search: if the pattern is not
  found before it, the first occurrence is the first one after it.
\<close>

lemma find_sub_skip:
  assumes "c \<notin> set pat" and "pat \<noteq> []"
  shows "find_sub pat P = None \<Longrightarrow>
         find_sub pat (P @ c # R) = map_option (\<lambda>i. Suc (length P) + i) (find_sub pat R)"
proof (induction P)
  case Nil
  have "take (length pat) (c # R) \<noteq> pat"
  proof
    assume "take (length pat) (c # R) = pat"
    then have "hd pat = c" using assms(2) by (cases pat) auto
    then show False using assms by (cases pat) auto
  qed
  then show ?case by (simp add: option.map_comp comp_def)
next
  case (Cons a P)
  from Cons.prems have no: "take (length pat) (a # P) \<noteq> pat" and rest: "find_sub pat P = None"
    by (auto split: if_splits)
  have "take (length pat) (a # P @ c # R) \<noteq> pat"
  proof
    assume eq: "take (length pat) (a # P @ c # R) = pat"
    show False
    proof (cases "length pat \<le> length (a # P)")
      case True
      have "take (length pat) ((a # P) @ c # R) =
            take (length pat) (a # P) @ take (length pat - length (a # P)) (c # R)"
        by (rule take_append)
      with True have "take (length pat) ((a # P) @ c # R) = take (length pat) (a # P)"
        by simp
      with eq no show False by simp
    next
      case False
      then obtain k where k: "length pat = length (a # P) + Suc k"
        by (metis Suc_diff_Suc add_diff_inverse_nat not_le_imp_less order_less_imp_not_less)
      have "take (length pat) ((a # P) @ c # R) = (a # P) @ c # take k R"
        unfolding k by simp
      then have "c \<in> set (take (length pat) ((a # P) @ c # R))" by simp
      with eq assms(1) show False by simp
    qed
  qed
  with Cons.IH [OF rest] show ?case by (simp add: option.map_comp comp_def)
qed

lemma string_find_0: "string_find s pat 0 = find_sub pat s"
  by (cases "find_sub pat s") (simp_all add: string_find_def)

lemma string_find_Some:
  "string_find s pat p = Some i \<Longrightarrow> p \<le> i \<and> i + length pat \<le> length s"
  by (auto simp: string_find_def split: if_splits dest!: find_sub_Some)

subsection \<open>C strings\<close>

lemma c_str_no_NUL: "NUL \<notin> set (c_str s)"
  unfolding c_str_def by (induction s) auto

lemma c_str_NUL_free: "NUL \<notin> set xs \<Longrightarrow> c_str (xs @ NUL # ys) = xs"
  unfolding c_str_def by (induction xs) auto

lemma c_str_cut: "c_str (xs @ NUL # ys) = c_str xs"
  unfolding c_str_def by (induction xs) auto

lemma c_str_snprintf:
  assumes "NUL \<notin> set xs"
  shows "c_str (snprintf n xs) = take (n - 1) xs"
proof -
  have "NUL \<notin> set (take (n - 1) xs)" using assms by (meson in_set_takeD)
  then show ?thesis unfolding snprintf_def by (rule c_str_NUL_free)
qed

lemma strstr_eq:
  assumes "NUL \<notin> set inp" and "p \<le> length inp"
  shows "strstr (inp @ [NUL]) p pat = string_find inp pat p"
proof -
  have "NUL \<notin> set (drop p inp)" using assms(1) by (meson in_set_dropD)
  then have "c_str (drop p inp @ [NUL]) = drop p inp" by (rule c_str_NUL_free)
  with assms(2) show ?thesis by (simp add: strstr_def string_find_def)
qed

lemma strchr_eq:
  assumes "NUL \<notin> set inp" and "p \<le> length inp" and "c \<noteq> NUL"
  shows "strchr (inp @ [NUL]) p c = string_find inp [c] p"
proof -
  have "NUL \<notin> set (drop p inp)" using assms(1) by (meson in_set_dropD)
  then have "c_str (drop p inp @ [NUL]) = drop p inp" by (rule c_str_NUL_free)
  with assms(2,3) show ?thesis by (simp add: strchr_def string_find_def)
qed

lemma strdup_World:
  "heap_ok i \<Longrightarrow> strdup heap_ok i (''World'' @ [NUL]) = Some (''World'' @ [NUL])"
  using c_str_NUL_free [of "''World''" "[]"] by (simp add: strdup_def NUL_def)

lemma c_str_append: "NUL \<notin> set A \<Longrightarrow> c_str (A @ B) = A @ c_str B"
  unfolding c_str_def by (induction A) auto

lemma c_str_drop_prefix:
  assumes "NUL \<notin> set A" and "k \<le> length A"
  shows "c_str (drop k (A @ B)) = drop k A @ c_str B"
proof -
  have "NUL \<notin> set (drop k A)" using assms(1) by (meson in_set_dropD)
  then have "c_str (drop k A @ B) = drop k A @ c_str B"
    by (rule c_str_append)
  with assms(2) show ?thesis by simp
qed

lemma c_str_id: "NUL \<notin> set xs \<Longrightarrow> c_str xs = xs"
  using c_str_NUL_free [of xs "[]"] c_str_cut [of xs "[]"] by simp

lemma find_sub_None_if: "pat \<noteq> [] \<Longrightarrow> hd pat \<notin> set xs \<Longrightarrow> find_sub pat xs = None"
proof (induction xs)
  case Nil
  then show ?case by simp
next
  case (Cons x xs)
  have "take (length pat) (x # xs) \<noteq> pat"
  proof
    assume "take (length pat) (x # xs) = pat"
    then have "hd pat = x" using Cons.prems(1) by (cases pat) auto
    with Cons.prems(2) show False by simp
  qed
  with Cons show ?case by simp
qed

section \<open>The example plugins\<close>

subsection \<open>The entry points in terms of the chosen name\<close>

lemma hello_cpp_of_name:
  assumes "hello_cpp_name (the_input h) = Inr name"
  shows "fst (hello_cpp h) = 0"
    and "the_output (snd (hello_cpp h)) = Some (greeting_json name)"
  using assms
  by (simp_all add: hello_cpp_def hello_cpp_try_def input_string_def input_def
      extism_input_length_def extism_input_load_u8_def write_bytes_def log_debug_def log_info_def
      extism_log_debug_def extism_log_info_def output_string_def extism_output_set_def
      record_call_def Let_def greeting_json_def)

lemma greeting_json_no_NUL: "NUL \<notin> set name \<Longrightarrow> NUL \<notin> set (greeting_json name)"
  by (simp add: greeting_json_def NUL_def)

lemma hello_c_finish_Some:
  "fst (hello_c_finish (Some name) h) = 0"
  "the_output (snd (hello_c_finish (Some name) h)) =
     Some (take 255 (greeting_json (c_str name)))"
proof -
  have "NUL \<notin> set (greeting_json (c_str name))"
    using c_str_no_NUL by (rule greeting_json_no_NUL)
  then have "c_str (snprintf 256 (greeting_json (c_str name))) =
     take 255 (greeting_json (c_str name))"
    using c_str_snprintf [of _ 256] by simp
  then show "the_output (snd (hello_c_finish (Some name) h)) =
     Some (take 255 (greeting_json (c_str name)))"
    by (simp add: hello_c_finish_def Let_def extism_output_set_def extism_log_info_def
        record_call_def greeting_json_def)
  show "fst (hello_c_finish (Some name) h) = 0"
    by (simp add: hello_c_finish_def Let_def)
qed

lemma hello_c_finish_None:
  "fst (hello_c_finish None h) = 1"
  "the_output (snd (hello_c_finish None h)) = the_output h"
  "the_error (snd (hello_c_finish None h)) = Some ''Memory allocation failed''"
  by (simp_all add: hello_c_finish_def extism_error_set_def record_call_def)

lemma hello_c_empty:
  "the_input h = [] \<Longrightarrow>
   hello_c heap_ok h =
     hello_c_finish (strdup heap_ok 0 (''World'' @ [NUL]))
       (snd (extism_input_length (extism_log_debug ''Hello function called'' h)))"
  by (simp add: hello_c_def Let_def extism_input_length_def extism_log_debug_def record_call_def)

lemma input_buf_eq:
  "(write_bytes (take (length inp) (drop 0 inp)) (replicate (length inp + 1) NUL))[length inp := NUL] =
   inp @ [NUL]"
proof -
  have "drop (length inp) (replicate (length inp + 1) NUL) = [NUL]"
    by (simp only: drop_replicate) simp
  then show ?thesis by (simp add: write_bytes_def list_update_append)
qed

lemma hello_c_nonempty:
  "the_input h \<noteq> [] \<Longrightarrow> heap_ok 0 \<Longrightarrow>
   hello_c heap_ok h =
     hello_c_finish (hello_c_name heap_ok (length (the_input h)) (the_input h @ [NUL]))
       (snd (extism_input_load_u8 0 (length (the_input h)) (replicate (length (the_input h) + 1) NUL)
          (snd (extism_input_length (extism_log_debug ''Hello function called'' h)))))"
  using input_buf_eq [of "the_input h"]
  by (simp add: hello_c_def Let_def extism_input_length_def extism_log_debug_def record_call_def
      extism_input_load_u8_def)

lemma hello_c_no_input_buf:
  "the_input h \<noteq> [] \<Longrightarrow> \<not> heap_ok 0 \<Longrightarrow>
   fst (hello_c heap_ok h) = 1 \<and> the_output (snd (hello_c heap_ok h)) = the_output h"
  by (simp add: hello_c_def Let_def extism_input_length_def extism_log_debug_def record_call_def
      extism_error_set_def)

lemma the_output_input_prims:
  "the_output (snd (extism_input_length (extism_log_debug m h))) = the_output h"
  "the_output (snd (extism_input_load_u8 a b c (snd (extism_input_length (extism_log_debug m h))))) = the_output h"
  by (simp_all add: extism_input_length_def extism_log_debug_def record_call_def extism_input_load_u8_def)

lemma hello_cpdk_result:
  "fst (hello_cpdk h) = 0"
  "the_output (snd (hello_cpdk h)) =
     Some (greeting_json (if the_input h = [] then ''World'' else c_str (take 255 (the_input h))))"
proof -
  show "fst (hello_cpdk h) = 0"
    by (simp add: hello_cpdk_def Let_def split: prod.splits)
  define inp where "inp = the_input h"
  define m where "m = (if length inp < 255 then length inp else 255)"
  define name where "name = (if 0 < length inp then (write_bytes (take m inp) (replicate 256 NUL))[m := NUL] else ''World'' @ [NUL])"
  have m: "m \<le> 255" "length (take m inp) = m" "take m inp = take 255 inp"
    by (auto simp: m_def)
  have "write_bytes (take m inp) (replicate 256 NUL) = take m inp @ NUL # replicate (255 - m) NUL"
    using m(1,2) by (simp add: write_bytes_def Suc_diff_le flip: replicate_Suc)
  then have "(write_bytes (take m inp) (replicate 256 NUL))[m := NUL] = take m inp @ NUL # replicate (255 - m) NUL"
    using m(2) by (simp add: list_update_append)
  then have name: "c_str name = (if inp = [] then ''World'' else c_str (take 255 inp))"
    using m(3) c_str_cut [of "take 255 inp"] c_str_NUL_free [of "''World''" "[]"]
    by (auto simp: name_def NUL_def)
  let ?full = "greeting_json (c_str name)"
  have "length (c_str (take 255 inp)) \<le> length (take 255 inp)"
    unfolding c_str_def by (rule length_takeWhile_le)
  then have "length (c_str name) \<le> 255"
    unfolding name by simp
  then have len: "length ?full \<le> 511" by (simp add: greeting_json_def)
  have "NUL \<notin> set ?full" using c_str_no_NUL by (rule greeting_json_no_NUL)
  then have "c_str (snprintf 512 ?full) = ?full"
    using c_str_snprintf [of ?full 512] len by simp
  then have full: "c_str (snprintf 512 ?full) = ?full" .
  have out: "the_output (snd (hello_cpdk h)) = Some (c_str (snprintf 512 ?full))"
    unfolding name_def m_def inp_def
    by (simp add: hello_cpdk_def Let_def extism_input_get_def extism_output_set_def record_call_def
        greeting_json_def)
  have "the_output (snd (hello_cpdk h)) = Some ?full"
    unfolding out full ..
  then show "the_output (snd (hello_cpdk h)) =
     Some (greeting_json (if the_input h = [] then ''World'' else c_str (take 255 (the_input h))))"
    unfolding name inp_def .
qed

subsection \<open>The choice of the name\<close>




lemma names_agree:
  assumes nz: "NUL \<notin> set inp" and ne: "inp \<noteq> []" and ok: "heap_ok 1"
    and br: \<open>CHR ''{'' \<in> set inp \<and> find_sub ''"name"'' inp \<noteq> None \<longrightarrow> hd inp = CHR ''{''\<close>
  shows "\<exists>name. hello_cpp_name inp = Inr name \<and>
           hello_c_name heap_ok (length inp) (inp @ [NUL]) = Some (name @ [NUL]) \<and>
           NUL \<notin> set name \<and> length name \<le> length inp"
proof -
  let ?buf = "inp @ [NUL]"
  have W: "strdup heap_ok 1 (''World'' @ [NUL]) = Some (''World'' @ [NUL])"
    using ok by (rule strdup_World)
  have b0: "?buf ! 0 = hd inp" using ne by (cases inp) auto
  have brace: "string_find inp ''{'' 0 \<noteq> None \<longleftrightarrow> CHR ''{'' \<in> set inp"
    by (simp add: string_find_0 find_sub_single_None)
  have nm: \<open>string_find inp ''"name"'' 0 = find_sub ''"name"'' inp\<close>
    by (rule string_find_0)
  have ss0: \<open>strstr ?buf 0 ''"name"'' = find_sub ''"name"'' inp\<close>
    using strstr_eq [OF nz, of 0] nm by simp
  have dq: "DQ \<noteq> NUL" "CHR '':'' \<noteq> NUL" by (simp_all add: DQ_def NUL_def)
  have wnz: "NUL \<notin> set ''World''" by (simp add: NUL_def)
  show ?thesis
  proof (cases \<open>CHR ''{'' \<in> set inp \<and> find_sub ''"name"'' inp \<noteq> None\<close>)
    case False
    have \<open>\<not> (string_find inp ''{'' 0 \<noteq> None \<and> string_find inp ''"name"'' 0 \<noteq> None)\<close>
      using False brace nm by simp
    then have cpp: "hello_cpp_name inp = Inr inp"
      unfolding hello_cpp_name_def by (simp only: ne if_False)
    have \<open>\<not> (length inp > 2 \<and> ?buf ! 0 = CHR ''{'' \<and> strstr ?buf 0 ''"name"'' \<noteq> None)\<close>
      using False ne b0 ss0 by (metis hd_in_set)
    then have "hello_c_name heap_ok (length inp) ?buf = strdup heap_ok 1 ?buf"
      unfolding hello_c_name_def by (simp only: if_False)
    also have "\<dots> = Some (inp @ [NUL])"
      using ok c_str_NUL_free [OF nz, of "[]"] by (simp add: strdup_def)
    finally show ?thesis using cpp nz by simp
  next
    case True
    then obtain i where i: \<open>find_sub ''"name"'' inp = Some i\<close> by auto
    from find_sub_Some [OF i] have ilen: "i + 6 \<le> length inp" by simp
    have hd: "hd inp = CHR ''{''" using br True by blast
    have ccond: \<open>length inp > 2 \<and> ?buf ! 0 = CHR ''{'' \<and> strstr ?buf 0 ''"name"'' \<noteq> None\<close>
      using ilen b0 hd ss0 i by simp
    have cppcond: \<open>inp \<noteq> [] \<and> string_find inp ''{'' 0 \<noteq> None \<and> string_find inp ''"name"'' 0 \<noteq> None\<close>
      using ne brace nm True by simp
    show ?thesis
    proof (cases "string_find inp '':'' i")
      case None
      have "hello_cpp_name inp = Inr ''World''"
        using cppcond None nm i by (simp add: hello_cpp_name_def string_find_at_def)
      moreover have "strchr ?buf i CHR '':'' = None"
        using strchr_eq [OF nz _ dq(2), of i] ilen None by simp
      then have "hello_c_name heap_ok (length inp) ?buf = Some (''World'' @ [NUL])"
        using ccond ss0 i W by (simp add: hello_c_name_def)
      ultimately show ?thesis using wnz ilen by simp
    next
      case (Some j)
      from string_find_Some [OF Some] have j: "j + 1 \<le> length inp" by simp
      have cj: "strchr ?buf i CHR '':'' = Some j"
        using strchr_eq [OF nz _ dq(2), of i] ilen Some by simp
      show ?thesis
      proof (cases "string_find inp [DQ] j")
        case None
        have "hello_cpp_name inp = Inr ''World''"
          using cppcond Some None nm i by (simp add: hello_cpp_name_def string_find_at_def DQ_def)
        moreover have "strchr ?buf j DQ = None"
          using strchr_eq [OF nz _ dq(1), of j] j None by simp
        then have "hello_c_name heap_ok (length inp) ?buf = Some (''World'' @ [NUL])"
          using ccond ss0 i cj W by (simp add: hello_c_name_def)
        ultimately show ?thesis using wnz ilen by simp
      next
        case (Some k)
        note k' = Some
        from string_find_Some [OF k'] have k: "k + 1 \<le> length inp" by simp
        have ck: "strchr ?buf j DQ = Some k"
          using strchr_eq [OF nz _ dq(1), of j] j k' by simp
        show ?thesis
        proof (cases "string_find inp [DQ] (k + 1)")
          case None
          have "hello_cpp_name inp = Inr ''World''"
            using cppcond \<open>string_find inp '':'' i = Some j\<close> k' None nm i
            by (simp add: hello_cpp_name_def string_find_at_def DQ_def)
          moreover have "strchr ?buf (k + 1) DQ = None"
            using strchr_eq [OF nz _ dq(1), of "k + 1"] k None by simp
          then have "hello_c_name heap_ok (length inp) ?buf = Some (''World'' @ [NUL])"
            using ccond ss0 i cj ck W by (simp add: hello_c_name_def)
          ultimately show ?thesis using wnz ilen by simp
        next
          case (Some e)
          from string_find_Some [OF Some] have e: "k + 1 \<le> e" "e + 1 \<le> length inp" by simp_all
          let ?name = "take (e - k - 1) (drop (k + 1) inp)"
          have "hello_cpp_name inp = Inr ?name"
            using cppcond \<open>string_find inp '':'' i = Some j\<close> k' Some nm i k
            by (simp add: hello_cpp_name_def string_find_at_def DQ_def substr_def)
          moreover have ce: "strchr ?buf (k + 1) DQ = Some e"
            using strchr_eq [OF nz _ dq(1), of "k + 1"] k Some by simp
          have "take (e - (k + 1)) (drop (k + 1) ?buf) = ?name"
            using k e by simp
          then have "hello_c_name heap_ok (length inp) ?buf = Some (?name @ [NUL])"
            using ccond ss0 i cj ck ce ok by (simp add: hello_c_name_def Let_def)
          moreover have "NUL \<notin> set ?name"
            using nz by (meson in_set_dropD in_set_takeD)
          ultimately show ?thesis by simp
        qed
      qed
    qed
  qed
qed



lemma hello_cpp_name_plain:
  assumes "inp \<noteq> []" and \<open>\<not> (CHR ''{'' \<in> set inp \<and> find_sub ''"name"'' inp \<noteq> None)\<close>
  shows "hello_cpp_name inp = Inr inp"
proof -
  have \<open>\<not> (string_find inp ''{'' 0 \<noteq> None \<and> string_find inp ''"name"'' 0 \<noteq> None)\<close>
    using assms(2) by (simp add: string_find_0 find_sub_single_None)
  then show ?thesis
    unfolding hello_cpp_name_def by (simp only: assms(1) if_False)
qed

lemma hello_c_name_plain:
  assumes "inp \<noteq> []" and "CHR ''{'' \<notin> set inp" and "heap_ok 1"
  shows "hello_c_name heap_ok (length inp) (inp @ [NUL]) = Some (c_str inp @ [NUL])"
proof -
  have "(inp @ [NUL]) ! 0 = hd inp" using assms(1) by (cases inp) auto
  then have "(inp @ [NUL]) ! 0 \<noteq> CHR ''{''" using assms(1,2) by (metis hd_in_set)
  then have "hello_c_name heap_ok (length inp) (inp @ [NUL]) = strdup heap_ok 1 (inp @ [NUL])"
    unfolding hello_c_name_def by simp
  then show ?thesis using assms(3) c_str_cut [of inp "[]"] by (simp add: strdup_def)
qed

lemma hello_cpp_name_steps:
  assumes "inp \<noteq> []" and "string_find inp ''{'' 0 \<noteq> None"
    and \<open>string_find inp ''"name"'' 0 = Some a\<close>
    and "string_find inp '':'' a = Some b"
    and "string_find inp [DQ] b = Some c"
    and "string_find inp [DQ] (c + 1) = Some e"
  shows "hello_cpp_name inp = substr inp (c + 1) (e - c - 1)"
  using assms by (simp add: hello_cpp_name_def string_find_at_def DQ_def)

lemma hello_cpp_name_json:
  assumes P: \<open>find_sub ''"name"'' P = None\<close> and X: "DQ \<notin> set X"
  shows \<open>hello_cpp_name (P @ ''{"name":"'' @ X @ ''"}'' @ S) = Inr X\<close>
proof -
  define inp where \<open>inp = P @ ''{"name":"'' @ X @ ''"}'' @ S\<close>
  let ?n = "length P"
  have inp: \<open>inp = P @ CHR ''{'' # (''"name":"'' @ X @ DQ # CHR ''}'' # S)\<close>
    by (simp add: inp_def DQ_def)
  have ne: "inp \<noteq> []" by (simp add: inp_def)
  have brace: "string_find inp ''{'' 0 \<noteq> None"
    by (simp add: string_find_0 find_sub_single_None inp_def)
  have name: \<open>string_find inp ''"name"'' 0 = Some (Suc ?n)\<close>
    unfolding string_find_0 inp using find_sub_skip [OF _ _ P, of "CHR ''{''"] by simp
  have d1: \<open>drop (Suc ?n) inp = ''"name":"'' @ X @ DQ # CHR ''}'' # S\<close>
    by (simp add: inp DQ_def)
  have len: "length inp = ?n + 10 + length X + Suc (length S)"
    by (simp add: inp)
  have colon: "string_find inp '':'' (Suc ?n) = Some (?n + 7)"
    unfolding string_find_def d1 using len by simp
  have d2: \<open>drop (?n + 7) inp = '':'' @ DQ # X @ DQ # CHR ''}'' # S\<close>
    by (simp add: inp DQ_def)
  have q1: "string_find inp [DQ] (?n + 7) = Some (?n + 8)"
    unfolding string_find_def d2 using len by (simp add: DQ_def)
  have d3: \<open>drop (?n + 8 + 1) inp = X @ DQ # CHR ''}'' # S\<close>
    by (simp add: inp DQ_def)
  have q2: "string_find inp [DQ] (?n + 8 + 1) = Some (?n + 8 + 1 + length X)"
    unfolding string_find_def d3 using find_sub_single_append [OF X] len by simp
  have sub: "substr inp (?n + 8 + 1) (?n + 8 + 1 + length X - (?n + 8) - 1) = Inr X"
    unfolding substr_def d3 using len by simp
  show ?thesis
    using hello_cpp_name_steps [OF ne brace name colon q1 q2] sub
    unfolding inp_def by simp
qed

lemma hello_c_name_steps:
  assumes "input_len > 2" and "buf ! 0 = CHR ''{''"
    and \<open>strstr buf 0 ''"name"'' = Some a\<close>
    and "strchr buf a CHR '':'' = Some b"
    and "strchr buf b DQ = Some c"
    and "strchr buf (c + 1) DQ = Some e"
    and "heap_ok 1"
  shows "hello_c_name heap_ok input_len buf = Some (take (e - (c + 1)) (drop (c + 1) buf) @ [NUL])"
  using assms by (simp add: hello_c_name_def Let_def)

lemma hello_c_name_json:
  assumes P: \<open>find_sub ''"name"'' P = None\<close> and X: "DQ \<notin> set X"
    and hd: \<open>hd (P @ ''{"name":"'' @ X @ ''"}'' @ S) = CHR ''{''\<close>
    and nP: "NUL \<notin> set P" and nX: "NUL \<notin> set X" and ok: "heap_ok 1"
  shows \<open>hello_c_name heap_ok (length (P @ ''{"name":"'' @ X @ ''"}'' @ S))
           ((P @ ''{"name":"'' @ X @ ''"}'' @ S) @ [NUL]) = Some (X @ [NUL])\<close>
proof -
  define inp where \<open>inp = P @ ''{"name":"'' @ X @ ''"}'' @ S\<close>
  define A where \<open>A = P @ CHR ''{'' # (''"name":"'' @ X @ [DQ])\<close>
  define B where "B = CHR ''}'' # S @ [NUL]"
  let ?n = "length P"
  have buf: "inp @ [NUL] = A @ B" by (simp add: inp_def A_def B_def DQ_def)
  have nA: "NUL \<notin> set A" using nP nX by (simp add: A_def NUL_def DQ_def)
  have lA: "length A = ?n + 10 + length X" by (simp add: A_def)
  have len: "length inp > 2" by (simp add: inp_def)
  have b0: "(inp @ [NUL]) ! 0 = CHR ''{''"
    using hd unfolding inp_def [symmetric] by (cases inp) (simp_all add: inp_def)
  have cs: "c_str (drop k (inp @ [NUL])) = drop k A @ c_str B" if "k \<le> length A" for k
    unfolding buf using nA that by (rule c_str_drop_prefix)
  have c0: \<open>c_str (drop 0 (inp @ [NUL])) = P @ CHR ''{'' # (''"name":"'' @ X @ DQ # c_str B)\<close>
    using cs [of 0] by (simp add: A_def)
  have name: \<open>strstr (inp @ [NUL]) 0 ''"name"'' = Some (Suc ?n)\<close>
    unfolding strstr_def c0 using find_sub_skip [OF _ _ P, of "CHR ''{''"] by simp
  have c1: \<open>c_str (drop (Suc ?n) (inp @ [NUL])) = ''"name":"'' @ X @ DQ # c_str B\<close>
    using cs [of "Suc ?n"] lA by (simp add: A_def)
  have colon: "strchr (inp @ [NUL]) (Suc ?n) CHR '':'' = Some (?n + 7)"
    unfolding strchr_def c1 by (simp add: NUL_def)
  have c2: \<open>c_str (drop (?n + 7) (inp @ [NUL])) = '':'' @ DQ # X @ DQ # c_str B\<close>
    using cs [of "?n + 7"] lA by (simp add: A_def DQ_def)
  have q1: "strchr (inp @ [NUL]) (?n + 7) DQ = Some (?n + 8)"
    unfolding strchr_def c2 by (simp add: NUL_def DQ_def)
  have c3: \<open>c_str (drop (?n + 8 + 1) (inp @ [NUL])) = X @ DQ # c_str B\<close>
    using cs [of "?n + 8 + 1"] lA by (simp add: A_def DQ_def)
  have q2: "strchr (inp @ [NUL]) (?n + 8 + 1) DQ = Some (?n + 8 + 1 + length X)"
    unfolding strchr_def c3 using find_sub_single_append [OF X] by (simp add: NUL_def DQ_def)
  have "drop (?n + 8 + 1) (inp @ [NUL]) = X @ DQ # B"
    unfolding buf by (simp add: A_def DQ_def)
  then have tk: "take (?n + 8 + 1 + length X - (?n + 8 + 1)) (drop (?n + 8 + 1) (inp @ [NUL])) = X"
    by simp
  show ?thesis
    using hello_c_name_steps [of "length inp" "inp @ [NUL]" "Suc ?n" "?n + 7" "?n + 8"
        "?n + 8 + 1 + length X" heap_ok] len b0 name colon q1 q2 ok tk
    unfolding inp_def by simp
qed

text \<open>
  No statement of the \<^verbatim>\<open>try\<close> block throws: the start position of \<^verbatim>\<open>substr\<close> is
  behind a byte that was found, so it is within the string. The handler of the C++ plugin
  is reached only when the library runs out of memory, which is not modelled.
\<close>

lemma hello_cpp_name_total: "\<exists>name. hello_cpp_name inp = Inr name"
proof -
  have "\<exists>name. substr inp (p + 1) n = Inr name" if "string_find inp [c] q = Some p" for p q n c
    using string_find_Some [OF that] by (simp add: substr_def)
  then show ?thesis
    by (auto simp: hello_cpp_name_def string_find_at_def Let_def split: option.splits)
qed

lemma hello_cpp_returns_0: "fst (hello_cpp h) = 0"
proof -
  obtain name where "hello_cpp_name (the_input h) = Inr name"
    using hello_cpp_name_total by blast
  then show ?thesis by (rule hello_cpp_of_name(1))
qed

lemma hello_c_of_cpp_name:
  assumes "NUL \<notin> set (the_input h)" and "the_input h \<noteq> []" and "heap_ok 0" and "heap_ok 1"
    and \<open>CHR ''{'' \<in> set (the_input h) \<and> find_sub ''"name"'' (the_input h) \<noteq> None \<longrightarrow>
           hd (the_input h) = CHR ''{''\<close>
  shows "\<exists>name. hello_cpp_name (the_input h) = Inr name \<and>
           hello_c_name heap_ok (length (the_input h)) (the_input h @ [NUL]) = Some (name @ [NUL]) \<and>
           length name \<le> length (the_input h) \<and>
           fst (hello_c heap_ok h) = 0 \<and>
           the_output (snd (hello_c heap_ok h)) = Some (take 255 (greeting_json name))"
proof -
  from names_agree [of "the_input h" heap_ok, OF assms(1,2,4,5)] obtain name where
    n: "hello_cpp_name (the_input h) = Inr name"
       "hello_c_name heap_ok (length (the_input h)) (the_input h @ [NUL]) = Some (name @ [NUL])"
       "NUL \<notin> set name" "length name \<le> length (the_input h)"
    by blast
  have "c_str (name @ [NUL]) = name" using n(3) by (rule c_str_NUL_free)
  then have "fst (hello_c heap_ok h) = 0 \<and>
      the_output (snd (hello_c heap_ok h)) = Some (take 255 (greeting_json name))"
    using hello_c_nonempty [of h heap_ok] assms(2,3) n(2) hello_c_finish_Some [of "name @ [NUL]"]
    by simp
  with n show ?thesis by blast
qed

lemma hello_c_empty_ok:
  assumes "the_input h = []" and "heap_ok 0"
  shows "fst (hello_c heap_ok h) = 0"
    and "the_output (snd (hello_c heap_ok h)) = Some (greeting_json ''World'')"
proof -
  have w: "c_str (''World'' @ [NUL]) = ''World''"
    using c_str_NUL_free [of "''World''" "[]"] by (simp add: NUL_def)
  have s: "strdup heap_ok 0 (''World'' @ [NUL]) = Some (''World'' @ [NUL])"
    using assms(2) by (rule strdup_World)
  show "fst (hello_c heap_ok h) = 0"
    using hello_c_empty [OF assms(1), of heap_ok] s hello_c_finish_Some(1) by simp
  show "the_output (snd (hello_c heap_ok h)) = Some (greeting_json ''World'')"
    using hello_c_empty [OF assms(1), of heap_ok] s hello_c_finish_Some(2) [of "''World'' @ [NUL]"] w
    by (simp add: greeting_json_def)
qed

subsection \<open>The claims about the entry points\<close>

text \<open>
  Claim C3. For the empty input the entry point uses the name "World", writes the greeting
  for "World" and returns 0: the C++ plugin and the plugin of the C kit always, the C
  plugin of the C++ kit in a call in which its \<^verbatim>\<open>strdup\<close> of the default name gets
  its memory. Running out of memory is not an input; it is left out of the claim for the
  C plugin as it is left out of the model of the C++ library.
\<close>

theorem hello_empty_input:
  "the_input h = [] \<Longrightarrow>
     hello_cpp_name (the_input h) = Inr ''World'' \<and>
     fst (hello_cpp h) = 0 \<and>
     the_output (snd (hello_cpp h)) = Some (greeting_json ''World'') \<and>
     fst (hello_cpdk h) = 0 \<and>
     the_output (snd (hello_cpdk h)) = Some (greeting_json ''World'') \<and>
     (heap_ok 0 \<longrightarrow>
        fst (hello_c heap_ok h) = 0 \<and>
        the_output (snd (hello_c heap_ok h)) = Some (greeting_json ''World''))"
proof -
  assume e: "the_input h = []"
  have n: "hello_cpp_name (the_input h) = Inr ''World''"
    using e by (simp add: hello_cpp_name_def)
  have ok: "heap_ok 0 \<Longrightarrow> fst (hello_c heap_ok h) = 0 \<and>
        the_output (snd (hello_c heap_ok h)) = Some (greeting_json ''World'')"
    using hello_c_empty_ok [of h heap_ok] e by simp
  show ?thesis
    using n hello_cpp_of_name [OF n] hello_cpdk_result [of h] e ok by simp
qed

theorem hello_empty_input_witness:
  "the_input fresh_host = [] \<and>
   hello_cpp_name (the_input fresh_host) = Inr ''World'' \<and>
   fst (hello_cpp fresh_host) = 0 \<and>
   the_output (snd (hello_cpp fresh_host)) = Some (greeting_json ''World'') \<and>
   fst (hello_cpdk fresh_host) = 0 \<and>
   the_output (snd (hello_cpdk fresh_host)) = Some (greeting_json ''World'') \<and>
   heap_works 0 \<and>
   fst (hello_c heap_works fresh_host) = 0 \<and>
   the_output (snd (hello_c heap_works fresh_host)) = Some (greeting_json ''World'')"
proof -
  have e: "the_input fresh_host = []" by (simp add: fresh_host_def host_of_def)
  show ?thesis
    using e hello_empty_input [OF e, of heap_works]
    by (simp add: heap_works_def)
qed

text \<open>The other branch of the null check at lines 83 to 87 of the C plugin.\<close>

lemma hello_c_empty_no_memory:
  assumes "the_input h = []" and "\<not> heap_ok 0"
  shows "fst (hello_c heap_ok h) = 1"
    and "the_output (snd (hello_c heap_ok h)) = the_output h"
    and "the_error (snd (hello_c heap_ok h)) = Some ''Memory allocation failed''"
  using hello_c_empty [OF assms(1), of heap_ok] assms(2) hello_c_finish_None
  by (simp_all add: strdup_def the_output_input_prims)

text \<open>
  Claim C4, amended. For a non-empty input that contains neither \<^verbatim>\<open>{\<close> nor
  \<^verbatim>\<open>"name"\<close>: the C++ plugin uses the whole input as the name and writes the greeting
  for it in full. The plugin of the C kit uses the first 255 bytes of the input, up to its
  first NUL byte. The C plugin of the C++ kit, when its allocations succeed, uses the
  input up to its first NUL byte and writes the first 255 bytes of the greeting. So both
  reproduce the input in full when it has no NUL byte and at most 232 bytes.
\<close>

theorem hello_plain_input:
  assumes "the_input h \<noteq> []" and "CHR ''{'' \<notin> set (the_input h)"
    and \<open>find_sub ''"name"'' (the_input h) = None\<close>
  shows "hello_cpp_name (the_input h) = Inr (the_input h) \<and>
     fst (hello_cpp h) = 0 \<and>
     the_output (snd (hello_cpp h)) = Some (greeting_json (the_input h)) \<and>
     fst (hello_cpdk h) = 0 \<and>
     the_output (snd (hello_cpdk h)) = Some (greeting_json (c_str (take 255 (the_input h)))) \<and>
     (heap_ok 0 \<and> heap_ok 1 \<longrightarrow>
        fst (hello_c heap_ok h) = 0 \<and>
        the_output (snd (hello_c heap_ok h)) =
          Some (take 255 (greeting_json (c_str (the_input h))))) \<and>
     (NUL \<notin> set (the_input h) \<and> length (the_input h) \<le> 232 \<longrightarrow>
        the_output (snd (hello_cpdk h)) = Some (greeting_json (the_input h)) \<and>
        (heap_ok 0 \<and> heap_ok 1 \<longrightarrow>
           the_output (snd (hello_c heap_ok h)) = Some (greeting_json (the_input h))))"
proof -
  have n: "hello_cpp_name (the_input h) = Inr (the_input h)"
    using assms by (simp add: hello_cpp_name_plain)
  have c: "heap_ok 0 \<and> heap_ok 1 \<Longrightarrow>
        fst (hello_c heap_ok h) = 0 \<and>
        the_output (snd (hello_c heap_ok h)) =
          Some (take 255 (greeting_json (c_str (the_input h))))"
    using hello_c_nonempty [of h heap_ok] assms(1)
      hello_c_name_plain [of "the_input h" heap_ok] assms(2)
      hello_c_finish_Some [of "c_str (the_input h) @ [NUL]"]
      c_str_NUL_free [OF c_str_no_NUL, of "the_input h" "[]"]
    by simp
  have small: "NUL \<notin> set (the_input h) \<and> length (the_input h) \<le> 232 \<Longrightarrow>
      c_str (take 255 (the_input h)) = the_input h \<and> c_str (the_input h) = the_input h \<and>
      take 255 (greeting_json (the_input h)) = greeting_json (the_input h)"
  proof -
    assume a: "NUL \<notin> set (the_input h) \<and> length (the_input h) \<le> 232"
    then have "length (greeting_json (the_input h)) \<le> 255"
      by (simp add: greeting_json_def)
    then have "take 255 (greeting_json (the_input h)) = greeting_json (the_input h)"
      by simp
    moreover have "take 255 (the_input h) = the_input h" using a by simp
    ultimately show ?thesis using a by (simp add: c_str_id)
  qed
  show ?thesis
    using n hello_cpp_of_name [OF n] hello_cpdk_result [of h] assms(1) c small by simp
qed

theorem hello_plain_input_witness:
  "the_input (input_host ''Bob'') \<noteq> [] \<and>
   CHR ''{'' \<notin> set (the_input (input_host ''Bob'')) \<and>
   hello_cpp_name (the_input (input_host ''Bob'')) = Inr ''Bob'' \<and>
   the_output (snd (hello_cpp (input_host ''Bob''))) = Some (greeting_json ''Bob'') \<and>
   the_output (snd (hello_cpdk (input_host ''Bob''))) = Some (greeting_json ''Bob'') \<and>
   heap_works 0 \<and> heap_works 1 \<and>
   fst (hello_c heap_works (input_host ''Bob'')) = 0 \<and>
   the_output (snd (hello_c heap_works (input_host ''Bob''))) = Some (greeting_json ''Bob'')"
proof -
  have i: "the_input (input_host ''Bob'') = ''Bob''" by (simp add: input_host_def host_of_def)
  have a: "the_input (input_host ''Bob'') \<noteq> []" "CHR ''{'' \<notin> set (the_input (input_host ''Bob''))"
    \<open>find_sub ''"name"'' (the_input (input_host ''Bob'')) = None\<close>
    unfolding i by simp_all
  have z: "NUL \<notin> set ''Bob''" by (simp add: NUL_def)
  show ?thesis
    using a hello_plain_input [OF a, of heap_works] z
    by (simp add: i heap_works_def c_str_def NUL_def greeting_json_def)
qed

theorem hello_plain_input_counterexample:
  \<open>the_input (input_host (replicate 256 CHR ''a'')) \<noteq> [] \<and>
   CHR ''{'' \<notin> set (the_input (input_host (replicate 256 CHR ''a''))) \<and>
   find_sub ''"name"'' (the_input (input_host (replicate 256 CHR ''a''))) = None \<and>
   the_output (snd (hello_cpdk (input_host (replicate 256 CHR ''a'')))) =
     Some (greeting_json (replicate 255 CHR ''a'')) \<and>
   the_output (snd (hello_cpdk (input_host (replicate 256 CHR ''a'')))) \<noteq>
     Some (greeting_json (replicate 256 CHR ''a'')) \<and>
   the_output (snd (hello_c heap_works (input_host (replicate 256 CHR ''a'')))) =
     Some (take 255 (greeting_json (replicate 256 CHR ''a''))) \<and>
   the_output (snd (hello_c heap_works (input_host (replicate 256 CHR ''a'')))) \<noteq>
     Some (greeting_json (replicate 256 CHR ''a''))\<close>
proof -
  let ?inp = "replicate 256 CHR ''a''"
  have i: "the_input (input_host ?inp) = ?inp" by (simp add: input_host_def host_of_def)
  have ne: "?inp \<noteq> []" by simp
  have nb: "CHR ''{'' \<notin> set ?inp" by simp
  have nn: \<open>find_sub ''"name"'' ?inp = None\<close> by (rule find_sub_None_if) simp_all
  have nz: "NUL \<notin> set ?inp" by (simp add: NUL_def)
  have "take 255 ?inp = replicate 255 CHR ''a''" by simp
  moreover have "NUL \<notin> set (replicate 255 CHR ''a'')" by (simp add: NUL_def)
  ultimately have k: "the_output (snd (hello_cpdk (input_host ?inp))) =
      Some (greeting_json (replicate 255 CHR ''a''))"
    using hello_cpdk_result(2) [of "input_host ?inp"] ne by (simp add: i c_str_id)
  have "length (greeting_json (replicate 255 CHR ''a'')) \<noteq> length (greeting_json ?inp)"
    by (simp add: greeting_json_def)
  then have k': "greeting_json (replicate 255 CHR ''a'') \<noteq> greeting_json ?inp" by metis
  have c: "the_output (snd (hello_c heap_works (input_host ?inp))) =
      Some (take 255 (greeting_json ?inp))"
    using hello_c_nonempty [of "input_host ?inp" heap_works]
      hello_c_name_plain [of ?inp heap_works] nb
      hello_c_finish_Some(2) [of "?inp @ [NUL]"] c_str_NUL_free [OF nz, of "[]"]
    by (simp add: i heap_works_def c_str_id [OF nz])
  have "length (take 255 (greeting_json ?inp)) \<noteq> length (greeting_json ?inp)"
    by (simp add: greeting_json_def)
  then have c': "take 255 (greeting_json ?inp) \<noteq> greeting_json ?inp" by metis
  show ?thesis unfolding i using ne nb nn k k' c c' by (simp add: i)
qed

text \<open>
  Claim C2, amended. When the input contains the text \<^verbatim>\<open>{"name":"X"}\<close> with no quote
  in \<open>X\<close> and no \<^verbatim>\<open>"name"\<close> occurs before that text, the C++ plugin extracts
  exactly \<open>X\<close> and writes the greeting for \<open>X\<close>. The C plugin of the C++ kit extracts
  \<open>X\<close> when moreover the first byte of the input is \<^verbatim>\<open>{\<close>, no NUL byte occurs
  before the end of \<open>X\<close>, and its allocations succeed; it writes the first 255 bytes of
  the greeting, which is all of it when \<open>X\<close> has at most 232 bytes.
\<close>

theorem hello_extracts_name:
  assumes \<open>the_input h = P @ ''{"name":"'' @ X @ ''"}'' @ S\<close>
    and \<open>find_sub ''"name"'' P = None\<close> and "DQ \<notin> set X"
  shows "hello_cpp_name (the_input h) = Inr X \<and>
     fst (hello_cpp h) = 0 \<and>
     the_output (snd (hello_cpp h)) = Some (greeting_json X) \<and>
     (hd (the_input h) = CHR ''{'' \<and> NUL \<notin> set P \<and> NUL \<notin> set X \<and> heap_ok 0 \<and> heap_ok 1 \<longrightarrow>
        hello_c_name heap_ok (length (the_input h)) (the_input h @ [NUL]) = Some (X @ [NUL]) \<and>
        fst (hello_c heap_ok h) = 0 \<and>
        the_output (snd (hello_c heap_ok h)) = Some (take 255 (greeting_json X)) \<and>
        (length X \<le> 232 \<longrightarrow> the_output (snd (hello_c heap_ok h)) = Some (greeting_json X)))"
proof -
  have n: "hello_cpp_name (the_input h) = Inr X"
    unfolding assms(1) using assms(2,3) by (rule hello_cpp_name_json)
  have c: "hello_c_name heap_ok (length (the_input h)) (the_input h @ [NUL]) = Some (X @ [NUL]) \<and>
        fst (hello_c heap_ok h) = 0 \<and>
        the_output (snd (hello_c heap_ok h)) = Some (take 255 (greeting_json X)) \<and>
        (length X \<le> 232 \<longrightarrow> the_output (snd (hello_c heap_ok h)) = Some (greeting_json X))"
    if a: "hd (the_input h) = CHR ''{'' \<and> NUL \<notin> set P \<and> NUL \<notin> set X \<and> heap_ok 0 \<and> heap_ok 1"
  proof -
    have ne: "the_input h \<noteq> []" by (simp add: assms(1))
    have nm: "hello_c_name heap_ok (length (the_input h)) (the_input h @ [NUL]) = Some (X @ [NUL])"
      using hello_c_name_json [of P X S heap_ok] assms(2,3) a
      unfolding assms(1) by blast
    have "c_str (X @ [NUL]) = X" using a by (simp add: c_str_NUL_free)
    then have "fst (hello_c heap_ok h) = 0 \<and>
        the_output (snd (hello_c heap_ok h)) = Some (take 255 (greeting_json X))"
      using hello_c_nonempty [of h heap_ok] ne a nm hello_c_finish_Some [of "X @ [NUL]"]
      by simp
    moreover have "length X \<le> 232 \<Longrightarrow> take 255 (greeting_json X) = greeting_json X"
      by (simp add: greeting_json_def)
    ultimately show ?thesis using nm by simp
  qed
  show ?thesis using n hello_cpp_of_name [OF n] c by blast
qed

theorem hello_extracts_name_witness:
  \<open>the_input (input_host ''{ {"name":"Bob"}'') = ''{ '' @ ''{"name":"'' @ ''Bob'' @ ''"}'' @ [] \<and>
   find_sub ''"name"'' ''{ '' = None \<and> DQ \<notin> set ''Bob'' \<and>
   hd (the_input (input_host ''{ {"name":"Bob"}'')) = CHR ''{'' \<and>
   NUL \<notin> set ''{ '' \<and> NUL \<notin> set ''Bob'' \<and> heap_works 0 \<and> heap_works 1 \<and> length ''Bob'' \<le> 232 \<and>
   hello_cpp_name (the_input (input_host ''{ {"name":"Bob"}'')) = Inr ''Bob'' \<and>
   fst (hello_cpp (input_host ''{ {"name":"Bob"}'')) = 0 \<and>
   the_output (snd (hello_cpp (input_host ''{ {"name":"Bob"}''))) = Some (greeting_json ''Bob'') \<and>
   hello_c_name heap_works (length (the_input (input_host ''{ {"name":"Bob"}'')))
     (the_input (input_host ''{ {"name":"Bob"}'') @ [NUL]) = Some (''Bob'' @ [NUL]) \<and>
   fst (hello_c heap_works (input_host ''{ {"name":"Bob"}'')) = 0 \<and>
   the_output (snd (hello_c heap_works (input_host ''{ {"name":"Bob"}''))) =
     Some (greeting_json ''Bob'')\<close>
proof -
  let ?h = \<open>input_host ''{ {"name":"Bob"}''\<close>
  have i: \<open>the_input ?h = ''{ '' @ ''{"name":"'' @ ''Bob'' @ ''"}'' @ []\<close>
    by (simp add: input_host_def host_of_def)
  have p: \<open>find_sub ''"name"'' ''{ '' = None\<close> by simp
  have x: "DQ \<notin> set ''Bob''" by (simp add: DQ_def)
  have hd: "hd (the_input ?h) = CHR ''{''" by (simp add: input_host_def host_of_def)
  have z: "NUL \<notin> set ''{ ''" "NUL \<notin> set ''Bob''" by (simp_all add: NUL_def)
  have w: "heap_works 0" "heap_works 1" by (simp_all add: heap_works_def)
  have l: "length ''Bob'' \<le> 232" by simp
  note t = hello_extracts_name [OF i p x, of heap_works]
  from t hd z w l have
    "hello_cpp_name (the_input ?h) = Inr ''Bob'' \<and> fst (hello_cpp ?h) = 0 \<and>
     the_output (snd (hello_cpp ?h)) = Some (greeting_json ''Bob'') \<and>
     hello_c_name heap_works (length (the_input ?h)) (the_input ?h @ [NUL]) = Some (''Bob'' @ [NUL]) \<and>
     fst (hello_c heap_works ?h) = 0 \<and>
     the_output (snd (hello_c heap_works ?h)) = Some (greeting_json ''Bob'')"
    by blast
  with i p x hd z w l show ?thesis by blast
qed

theorem hello_extracts_name_counterexample:
  \<open>the_input (input_host ''"name":"Y"{"name":"X"}'') = ''"name":"Y"'' @ ''{"name":"X"}'' \<and>
   CHR ''{'' \<in> set (the_input (input_host ''"name":"Y"{"name":"X"}'')) \<and>
   find_sub ''"name"'' (the_input (input_host ''"name":"Y"{"name":"X"}'')) = Some 0 \<and>
   hello_cpp_name (the_input (input_host ''"name":"Y"{"name":"X"}'')) = Inr ''Y'' \<and>
   the_output (snd (hello_cpp (input_host ''"name":"Y"{"name":"X"}''))) =
     Some (greeting_json ''Y'') \<and>
   the_output (snd (hello_c heap_works (input_host ''"name":"Y"{"name":"X"}''))) =
     Some (greeting_json ''"name":"Y"{"name":"X"}'')\<close>
proof -
  let ?inp = \<open>''"name":"Y"{"name":"X"}''\<close>
  have i: "the_input (input_host ?inp) = ?inp" by (simp add: input_host_def host_of_def)
  have n: "hello_cpp_name ?inp = Inr ''Y''"
    by (simp add: hello_cpp_name_def string_find_def string_find_at_def substr_def)
  have nz: "NUL \<notin> set ?inp" by (simp add: NUL_def)
  have "hello_c_name heap_works (length ?inp) (?inp @ [NUL]) = strdup heap_works 1 (?inp @ [NUL])"
    by (simp add: hello_c_name_def)
  then have c: "the_output (snd (hello_c heap_works (input_host ?inp))) = Some (take 255 (greeting_json ?inp))"
    using hello_c_nonempty [of "input_host ?inp" heap_works]
      hello_c_finish_Some(2) [of "?inp @ [NUL]"] c_str_NUL_free [OF nz, of "[]"]
    by (simp add: i heap_works_def strdup_def)
  have t: "take 255 (greeting_json ?inp) = greeting_json ?inp"
    by (simp add: greeting_json_def)
  show ?thesis
    unfolding i using n hello_cpp_of_name(2) [of "input_host ?inp" "''Y''"] c t
    by (simp add: i)
qed

text \<open>
  Claim C9, amended. On an input without NUL byte that either begins with \<^verbatim>\<open>{\<close> or does
  not contain both \<^verbatim>\<open>{\<close> and \<^verbatim>\<open>"name"\<close>, and when the allocations of the C plugin
  succeed, the C plugin and the C++ plugin of the C++ kit both return 0 and the output of
  the C plugin is the first 255 bytes of the output of the C++ plugin; the outputs are the
  same when the input has at most 232 bytes.
\<close>

theorem hello_c_agrees_with_hello_cpp:
  assumes "NUL \<notin> set (the_input h)" and "heap_ok 0" and "heap_ok 1"
    and \<open>CHR ''{'' \<in> set (the_input h) \<and> find_sub ''"name"'' (the_input h) \<noteq> None \<longrightarrow>
           hd (the_input h) = CHR ''{''\<close>
  shows "fst (hello_c heap_ok h) = fst (hello_cpp h) \<and>
     fst (hello_cpp h) = 0 \<and>
     the_output (snd (hello_c heap_ok h)) = map_option (take 255) (the_output (snd (hello_cpp h))) \<and>
     (length (the_input h) \<le> 232 \<longrightarrow>
        the_output (snd (hello_c heap_ok h)) = the_output (snd (hello_cpp h)))"
proof (cases "the_input h = []")
  case True
  have n: "hello_cpp_name (the_input h) = Inr ''World''"
    using True by (simp add: hello_cpp_name_def)
  show ?thesis
    using hello_c_empty_ok [of h heap_ok] True assms(2) hello_cpp_of_name [OF n]
    by (simp add: greeting_json_def)
next
  case False
  from hello_c_of_cpp_name [of h heap_ok] assms False obtain name where
    n: "hello_cpp_name (the_input h) = Inr name" "length name \<le> length (the_input h)"
       "fst (hello_c heap_ok h) = 0"
       "the_output (snd (hello_c heap_ok h)) = Some (take 255 (greeting_json name))"
    by blast
  have "length (the_input h) \<le> 232 \<Longrightarrow> take 255 (greeting_json name) = greeting_json name"
    using n(2) by (simp add: greeting_json_def)
  then show ?thesis
    using n(3,4) hello_cpp_of_name [OF n(1)] by simp
qed

theorem hello_c_agrees_with_hello_cpp_witness:
  \<open>NUL \<notin> set (the_input (input_host ''{"name":"Bob"}'')) \<and> heap_works 0 \<and> heap_works 1 \<and>
   hd (the_input (input_host ''{"name":"Bob"}'')) = CHR ''{'' \<and>
   length (the_input (input_host ''{"name":"Bob"}'')) \<le> 232 \<and>
   fst (hello_c heap_works (input_host ''{"name":"Bob"}'')) =
     fst (hello_cpp (input_host ''{"name":"Bob"}'')) \<and>
   the_output (snd (hello_c heap_works (input_host ''{"name":"Bob"}''))) =
     the_output (snd (hello_cpp (input_host ''{"name":"Bob"}'')))\<close>
proof -
  let ?h = \<open>input_host ''{"name":"Bob"}''\<close>
  have i: \<open>the_input ?h = ''{"name":"Bob"}''\<close> by (simp add: input_host_def host_of_def)
  have z: "NUL \<notin> set (the_input ?h)" by (simp add: i NUL_def)
  have w: "heap_works 0" "heap_works 1" by (simp_all add: heap_works_def)
  have b: \<open>CHR ''{'' \<in> set (the_input ?h) \<and> find_sub ''"name"'' (the_input ?h) \<noteq> None \<longrightarrow>
           hd (the_input ?h) = CHR ''{''\<close> by (simp add: i)
  have l: "length (the_input ?h) \<le> 232" by (simp add: i)
  have hd: "hd (the_input ?h) = CHR ''{''" by (simp add: i)
  note t = hello_c_agrees_with_hello_cpp [of ?h heap_works, OF z w b]
  from t l have "fst (hello_c heap_works ?h) = fst (hello_cpp ?h) \<and>
      the_output (snd (hello_c heap_works ?h)) = the_output (snd (hello_cpp ?h))"
    by blast
  with z w hd l show ?thesis by blast
qed

theorem hello_c_agrees_with_hello_cpp_counterexample:
  \<open>the_output (snd (hello_c heap_works (input_host ''x{"name":"Bob"}''))) =
     Some (greeting_json ''x{"name":"Bob"}'') \<and>
   the_output (snd (hello_cpp (input_host ''x{"name":"Bob"}''))) = Some (greeting_json ''Bob'') \<and>
   the_output (snd (hello_c heap_works (input_host ''x{"name":"Bob"}''))) \<noteq>
     the_output (snd (hello_cpp (input_host ''x{"name":"Bob"}'')))\<close>
proof -
  let ?inp = \<open>''x{"name":"Bob"}''\<close>
  have i: "the_input (input_host ?inp) = ?inp" by (simp add: input_host_def host_of_def)
  have n: "hello_cpp_name ?inp = Inr ''Bob''"
    by (simp add: hello_cpp_name_def string_find_def string_find_at_def substr_def)
  have nz: "NUL \<notin> set ?inp" by (simp add: NUL_def)
  have "hello_c_name heap_works (length ?inp) (?inp @ [NUL]) = strdup heap_works 1 (?inp @ [NUL])"
    by (simp add: hello_c_name_def)
  then have c: "the_output (snd (hello_c heap_works (input_host ?inp))) = Some (take 255 (greeting_json ?inp))"
    using hello_c_nonempty [of "input_host ?inp" heap_works]
      hello_c_finish_Some(2) [of "?inp @ [NUL]"] c_str_NUL_free [OF nz, of "[]"]
    by (simp add: i heap_works_def strdup_def)
  have t: "take 255 (greeting_json ?inp) = greeting_json ?inp"
    by (simp add: greeting_json_def)
  have d: "greeting_json ?inp \<noteq> greeting_json ''Bob''" by (simp add: greeting_json_def)
  show ?thesis
    using c t d hello_cpp_of_name(2) [of "input_host ?inp" "''Bob''"] n by (simp add: i)
qed

section \<open>Memory handles\<close>

lemma alloc_rets_append: "alloc_rets (xs @ ys) = alloc_rets xs @ alloc_rets ys"
  by (induction xs rule: alloc_rets.induct) simp_all

lemma frees_append: "frees (xs @ ys) = frees xs @ frees ys"
  by (induction xs rule: frees.induct) simp_all

lemma filter_update_count:
  "i < length xs \<Longrightarrow>
   length (filter P (xs[i := y])) + (if P (xs ! i) then 1 else 0) =
   length (filter P xs) + (if P y then 1 else 0)"
proof (induction xs arbitrary: i)
  case Nil
  then show ?case by simp
next
  case (Cons x xs)
  then show ?case by (cases i) auto
qed

lemma holders_update:
  "i < length objs \<Longrightarrow>
   holders (objs[i := y]) p + (if holds p (objs ! i) then 1 else 0) =
   holders objs p + (if holds p y then 1 else 0)"
  unfolding holders_def by (rule filter_update_count)

lemma holders_snoc: "holders (objs @ [x]) p = holders objs p + (if holds p x then 1 else 0)"
  by (simp add: holders_def)

lemma count_list_distinct: "distinct xs \<Longrightarrow> count_list xs p \<le> 1"
  by (induction xs) (auto simp: count_list_0_iff)

lemma lookup_Some: "lookup objs i = Some m \<Longrightarrow> i < length objs \<and> objs ! i = Some m"
  by (simp add: lookup_def split: if_splits)

lemma Move_assign_distinct:
  assumes "exec_op (Move_assign t s) (objs, h) = Some st'" and "t \<noteq> s"
  obtains this other where "lookup objs t = Some this" and "lookup objs s = Some other"
    and "st' = (objs[t := Some (this\<lparr>offset := offset other, length' := length' other\<rparr>),
                     s := Some (other\<lparr>offset := 0, length' := 0\<rparr>)],
                if offset this \<noteq> 0 then extism_free (offset this) h else h)"
  using assms by (auto simp: Memory_move_assign_def Let_def split: option.splits)

lemma exec_op_balanced:
  assumes "exec_op op st = Some st'" and "p \<noteq> 0" and "balanced p st"
  shows "balanced p st'"
proof (cases st)
  case (Pair objs h)
  show ?thesis
  proof (cases op)
    case (Construct sz)
    with assms Pair show ?thesis
      by (auto simp: balanced_def Memory_new_def extism_alloc_def new_block_def record_call_def
          Let_def holders_snoc holds_def alloc_rets_append frees_append)
  next
    case (Move_construct i)
    with assms Pair obtain other where
      l: "lookup objs i = Some other" and
      st': "st' = (objs[i := Some (other\<lparr>offset := 0, length' := 0\<rparr>)] @ [Some \<lparr>offset = offset other, length' = length' other\<rparr>], h)"
      by (auto simp: Memory_move_def split: option.splits)
    from l have i: "i < length objs" "objs ! i = Some other" using lookup_Some by auto
    from holders_update [OF i(1), of "Some (other\<lparr>offset := 0, length' := 0\<rparr>)" p] i(2) assms(2)
    have "holders (objs[i := Some (other\<lparr>offset := 0, length' := 0\<rparr>)]) p + (if offset other = p then 1 else 0) = holders objs p"
      by (auto simp: holds_def)
    with assms(3) Pair st' show ?thesis
      by (auto simp: balanced_def holders_snoc holds_def)
  next
    case (Move_assign t s)
    show ?thesis
    proof (cases "t = s")
      case True
      with assms Pair Move_assign show ?thesis by (auto split: option.splits)
    next
      case False
      from assms(1) Pair Move_assign False obtain this other where
        lt: "lookup objs t = Some this" and ls: "lookup objs s = Some other" and
        st': "st' = (objs[t := Some (this\<lparr>offset := offset other, length' := length' other\<rparr>),
                          s := Some (other\<lparr>offset := 0, length' := 0\<rparr>)],
                     if offset this \<noteq> 0 then extism_free (offset this) h else h)"
        using Move_assign_distinct [of t s objs h st'] by auto
      from lt have t: "t < length objs" "objs ! t = Some this" using lookup_Some by auto
      from ls have s: "s < length objs" "objs ! s = Some other" using lookup_Some by auto
      let ?o1 = "objs[t := Some (this\<lparr>offset := offset other, length' := length' other\<rparr>)]"
      have s1: "s < length ?o1" "?o1 ! s = Some other" using s False by auto
      from holders_update [OF t(1), of "Some (this\<lparr>offset := offset other, length' := length' other\<rparr>)" p] t(2)
      have h1: "holders ?o1 p + (if offset this = p then 1 else 0) =
                holders objs p + (if offset other = p then 1 else 0)"
        by (auto simp: holds_def)
      from holders_update [OF s1(1), of "Some (other\<lparr>offset := 0, length' := 0\<rparr>)" p] s1(2) assms(2)
      have h2: "holders (?o1[s := Some (other\<lparr>offset := 0, length' := 0\<rparr>)]) p + (if offset other = p then 1 else 0) =
                holders ?o1 p"
        by (auto simp: holds_def)
      from h1 h2 assms(2,3) Pair st' show ?thesis
        by (auto simp: balanced_def extism_free_def record_call_def frees_append alloc_rets_append
            split: if_splits)
    qed
  next
    case (Destroy i)
    with assms Pair obtain m where
      l: "lookup objs i = Some m" and st': "st' = (objs[i := None], Memory_delete m h)"
      by (auto split: option.splits)
    from l have i: "i < length objs" "objs ! i = Some m" using lookup_Some by auto
    from holders_update [OF i(1), of None p] i(2)
    have "holders (objs[i := None]) p + (if offset m = p then 1 else 0) = holders objs p"
      by (auto simp: holds_def)
    with assms(3) Pair st' show ?thesis
      by (auto simp: balanced_def Memory_delete_def extism_free_def record_call_def frees_append
          alloc_rets_append split: if_splits)
  qed
qed

lemma run_balanced:
  "run ops st = Some st' \<Longrightarrow> p \<noteq> 0 \<Longrightarrow> balanced p st \<Longrightarrow> balanced p st'"
proof (induction ops arbitrary: st)
  case Nil
  then show ?case by simp
next
  case (Cons op ops)
  then show ?case by (auto split: option.splits dest: exec_op_balanced)
qed

lemmas memory_eval =
  state_after_def lookup_def Memory_new_def Memory_delete_def Memory_move_def
  Memory_move_assign_def extism_alloc_def extism_free_def new_block_def record_call_def
  fresh_host_def null_host_def host_of_def Let_def

text \<open>
  Claim C1, amended. Moving from a handle \<open>m\<close> into another object, by move construction
  or by move assignment to an object other than \<open>m\<close>, sets the offset and the length of
  \<open>m\<close> to 0; a move assignment of \<open>m\<close> to itself changes nothing. Over any sequence of
  constructions, moves and destructions of live objects, started on a host with an empty
  call log, every offset other than 0 has been passed to \<^verbatim>\<open>extism_free\<close> at most as
  many times as \<^verbatim>\<open>extism_alloc\<close> has returned it: at most once when the host has
  returned no offset twice.
\<close>

theorem Memory_release_accounting:
  "(offset (snd (Memory_move other)) = 0 \<and> length' (snd (Memory_move other)) = 0) \<and>
   (t \<noteq> s \<longrightarrow> exec_op (Move_assign t s) (objs, h) = Some (objs', h') \<longrightarrow>
      (\<exists>m. lookup objs' s = Some m \<and> offset m = 0 \<and> length' m = 0)) \<and>
   (exec_op (Move_assign u u) (objs1, h1) = Some (objs1', h1') \<longrightarrow> objs1' = objs1 \<and> h1' = h1) \<and>
   (run ops ([], h0) = Some (objs2, h2) \<longrightarrow> calls h0 = [] \<longrightarrow> p \<noteq> 0 \<longrightarrow>
      count_list (frees (calls h2)) p \<le> count_list (alloc_rets (calls h2)) p \<and>
      (distinct (alloc_rets (calls h2)) \<longrightarrow> count_list (frees (calls h2)) p \<le> 1))"
proof -
  have a: "offset (snd (Memory_move other)) = 0 \<and> length' (snd (Memory_move other)) = 0"
    by (simp add: Memory_move_def)
  have b: "\<exists>m. lookup objs' s = Some m \<and> offset m = 0 \<and> length' m = 0"
    if "t \<noteq> s" and e: "exec_op (Move_assign t s) (objs, h) = Some (objs', h')"
  proof -
    from e that(1) obtain this other' where
      ls: "lookup objs s = Some other'" and
      st: "(objs', h') = (objs[t := Some (this\<lparr>offset := offset other', length' := length' other'\<rparr>),
                     s := Some (other'\<lparr>offset := 0, length' := 0\<rparr>)],
                if offset this \<noteq> 0 then extism_free (offset this) h else h)"
      by (rule Move_assign_distinct)
    from ls have "s < length objs" using lookup_Some by blast
    with st show ?thesis by (simp add: lookup_def)
  qed
  have c: "objs1' = objs1 \<and> h1' = h1"
    if "exec_op (Move_assign u u) (objs1, h1) = Some (objs1', h1')"
    using that by (auto split: option.splits)
  have d: "count_list (frees (calls h2)) p \<le> count_list (alloc_rets (calls h2)) p \<and>
      (distinct (alloc_rets (calls h2)) \<longrightarrow> count_list (frees (calls h2)) p \<le> 1)"
    if r: "run ops ([], h0) = Some (objs2, h2)" and "calls h0 = []" and "p \<noteq> 0"
  proof -
    have "balanced p ([], h0)" using that(2) by (simp add: balanced_def holders_def)
    with r that(3) have "balanced p (objs2, h2)" using run_balanced by blast
    then have le: "count_list (frees (calls h2)) p \<le> count_list (alloc_rets (calls h2)) p"
      by (simp add: balanced_def)
    moreover have "count_list (frees (calls h2)) p \<le> 1" if "distinct (alloc_rets (calls h2))"
      using le count_list_distinct [OF that, of p] by simp
    ultimately show ?thesis by simp
  qed
  show ?thesis using a b c d by blast
qed

theorem Memory_release_accounting_witness:
  "offset (snd (Memory_move \<lparr>offset = 5, length' = 4\<rparr>)) = 0 \<and>
   length' (snd (Memory_move \<lparr>offset = 5, length' = 4\<rparr>)) = 0 \<and>
   (0::nat) \<noteq> 1 \<and>
   exec_op (Move_assign 0 1)
     ([Some \<lparr>offset = 1, length' = 4\<rparr>, Some \<lparr>offset = 2, length' = 5\<rparr>], fresh_host) =
     Some ([Some \<lparr>offset = 2, length' = 5\<rparr>, Some \<lparr>offset = 0, length' = 0\<rparr>],
           extism_free 1 fresh_host) \<and>
   (\<exists>m. lookup [Some \<lparr>offset = 2, length' = 5\<rparr>, Some \<lparr>offset = 0, length' = 0\<rparr>] 1 = Some m \<and>
        offset m = 0 \<and> length' m = 0) \<and>
   exec_op (Move_assign 0 0) ([Some \<lparr>offset = 1, length' = 4\<rparr>], fresh_host) =
     Some ([Some \<lparr>offset = 1, length' = 4\<rparr>], fresh_host) \<and>
   run [Construct 4, Move_construct 0, Destroy 1, Destroy 0] ([], fresh_host) =
     Some (fst (state_after [Construct 4, Move_construct 0, Destroy 1, Destroy 0] fresh_host),
           snd (state_after [Construct 4, Move_construct 0, Destroy 1, Destroy 0] fresh_host)) \<and>
   calls fresh_host = [] \<and> (1 :: 64 word) \<noteq> 0 \<and>
   count_list (frees (calls (snd (state_after
       [Construct 4, Move_construct 0, Destroy 1, Destroy 0] fresh_host)))) 1
   \<le> count_list (alloc_rets (calls (snd (state_after
       [Construct 4, Move_construct 0, Destroy 1, Destroy 0] fresh_host)))) 1 \<and>
   distinct (alloc_rets (calls (snd (state_after
       [Construct 4, Move_construct 0, Destroy 1, Destroy 0] fresh_host)))) \<and>
   count_list (frees (calls (snd (state_after
       [Construct 4, Move_construct 0, Destroy 1, Destroy 0] fresh_host)))) 1 \<le> 1"
proof -
  let ?ops = "[Construct 4, Move_construct 0, Destroy 1, Destroy 0]"
  let ?A = "[Some \<lparr>offset = 1, length' = 4\<rparr>, Some \<lparr>offset = 2, length' = 5\<rparr>]"
  let ?B = "[Some \<lparr>offset = 2, length' = 5\<rparr>, Some \<lparr>offset = 0, length' = 0\<rparr>]"
  let ?C = "[Some \<lparr>offset = 1, length' = 4\<rparr>]"
  have ts: "(0::nat) \<noteq> 1" by simp
  have ma: "exec_op (Move_assign 0 1) (?A, fresh_host) = Some (?B, extism_free 1 fresh_host)"
    by (simp add: lookup_def Memory_move_assign_def Let_def)
  have self: "exec_op (Move_assign 0 0) (?C, fresh_host) = Some (?C, fresh_host)"
    by (simp add: lookup_def)
  have r: "run ?ops ([], fresh_host) =
      Some (fst (state_after ?ops fresh_host), snd (state_after ?ops fresh_host))"
    by (simp add: memory_eval)
  have c: "calls fresh_host = []" by (simp add: fresh_host_def host_of_def)
  have p: "(1 :: 64 word) \<noteq> 0" by simp
  have di: "distinct (alloc_rets (calls (snd (state_after ?ops fresh_host))))"
    by (simp add: memory_eval)
  show ?thesis
    using Memory_release_accounting [of "\<lparr>offset = 5, length' = 4\<rparr>" 0 1 ?A fresh_host ?B
        "extism_free 1 fresh_host" 0 ?C fresh_host ?C fresh_host ?ops fresh_host
        "fst (state_after ?ops fresh_host)" "snd (state_after ?ops fresh_host)" 1]
      ts ma self r c p di
    by blast
qed

theorem Memory_release_accounting_counterexample:
  "fst (state_after [Construct 4, Move_assign 0 0] fresh_host) =
     [Some \<lparr>offset = 1, length' = 4\<rparr>] \<and>
   alloc_rets (calls (snd (state_after
       [Construct 4, Move_construct 0, Destroy 1, Destroy 0] null_host))) = [0] \<and>
   frees (calls (snd (state_after
       [Construct 4, Move_construct 0, Destroy 1, Destroy 0] null_host))) = [0, 0]"
  by (simp add: memory_eval)

section \<open>The host facade\<close>

lemmas host_prims =
  record_call_def new_block_def extism_length_def extism_load_u8_def extism_free_def
  extism_var_get_def extism_var_set_def extism_config_get_def write_bytes_def

lemma calls_var_set_string: "calls (var_set_string n v h) = calls h @ [Call_var_set n v]"
  by (simp add: var_set_string_def extism_var_set_def record_call_def)

lemma calls_var_set: "calls (var_set n v h) = calls h @ [Call_var_set n v]"
  by (simp add: var_set_def extism_var_set_def record_call_def)

lemma calls_header_fold:
  "calls (fold (\<lambda>(key, v) h. var_set_string (f key) v h) hs h) =
   calls h @ map (\<lambda>(key, v). Call_var_set (f key) v) hs"
  by (induction hs arbitrary: h) (auto simp: calls_var_set_string)

lemma calls_extism_http_request:
  "calls (snd (extism_http_request a h)) = calls h @ [Call_http_request a]"
  by (simp add: extism_http_request_def record_call_def split: prod.splits)

lemma calls_http_request_vars:
  "calls (http_request_vars r h) =
     calls h
     @ [Call_var_set ''request:method'' (http_method_to_string (request_method r)),
        Call_var_set ''request:url'' (url r)]
     @ map (\<lambda>(name, v). Call_var_set (''request:header:'' @ name) v) (headers r)
     @ (case body r of None \<Rightarrow> [] | Some b \<Rightarrow> [Call_var_set ''request:body'' b])"
  unfolding http_request_vars_def Let_def
  by (cases "body r") (simp_all add: calls_var_set calls_header_fold calls_var_set_string)

lemma snd_http_request:
  "snd (http_request r h) = snd (extism_http_request 0 (http_request_vars r h))"
  by (simp add: http_request_def Let_def split: prod.splits)

lemmas example_eval =
  http_request_def extism_http_request_def http_request_vars_def example_request_def
  fresh_host_def host_of_def var_set_string_def var_set_def extism_var_set_def record_call_def
  Let_def

text \<open>
  Claim C5. If the host's request primitive answers with a non-zero status,
  \<^verbatim>\<open>Host::http_request\<close> throws and returns no response object; when it returns a
  response object, the status was zero and the object wraps the handle the host gave.
\<close>

theorem http_request_status:
  "(fst (fst (extism_http_request 0 (http_request_vars r h))) \<noteq> 0 \<longrightarrow>
      fst (http_request r h) = Inl (Runtime_error ''HTTP request failed'')) \<and>
   (fst (http_request r h) = Inr resp \<longrightarrow>
      fst (extism_http_request 0 (http_request_vars r h)) = (0, ptr resp))"
  by (auto simp: http_request_def Let_def split: prod.splits if_splits)

theorem http_request_status_witness:
  "fst (fst (extism_http_request 0
      (http_request_vars example_request (host_of [] Map.empty 3)))) \<noteq> 0 \<and>
   fst (http_request example_request (host_of [] Map.empty 3)) =
     Inl (Runtime_error ''HTTP request failed'') \<and>
   fst (http_request example_request fresh_host) = Inr \<lparr>ptr = 7\<rparr> \<and>
   fst (extism_http_request 0 (http_request_vars example_request fresh_host)) = (0, 7)"
proof -
  have s3: "fst (fst (extism_http_request 0
      (http_request_vars example_request (host_of [] Map.empty 3)))) \<noteq> 0"
    by (simp add: example_eval)
  have r0: "fst (http_request example_request fresh_host) = Inr \<lparr>ptr = 7\<rparr>"
    by (simp add: example_eval)
  show ?thesis
    using http_request_status [of example_request "host_of [] Map.empty 3"]
      http_request_status [of example_request fresh_host "\<lparr>ptr = 7\<rparr>"] s3 r0
    by simp
qed

text \<open>
  Claim C6. \<^verbatim>\<open>Host::http_request\<close> calls the host in this order: it sets
  \<^verbatim>\<open>request:method\<close> to the string form of the method, \<^verbatim>\<open>request:url\<close> to the URL,
  one variable \<^verbatim>\<open>request:header:<name>\<close> per header to its value, \<^verbatim>\<open>request:body\<close>
  to the body exactly when there is one, and then calls the request primitive with first
  argument 0; it makes no other call.
\<close>

theorem http_request_call_order:
  "calls (snd (http_request r h)) =
     calls h
     @ [Call_var_set ''request:method'' (http_method_to_string (request_method r)),
        Call_var_set ''request:url'' (url r)]
     @ map (\<lambda>(name, v). Call_var_set (''request:header:'' @ name) v) (headers r)
     @ (case body r of None \<Rightarrow> [] | Some b \<Rightarrow> [Call_var_set ''request:body'' b])
     @ [Call_http_request 0]"
  by (simp add: snd_http_request calls_extism_http_request calls_http_request_vars)

theorem http_request_call_order_witness:
  "calls (snd (http_request example_request fresh_host)) =
     [Call_var_set ''request:method'' ''POST'',
      Call_var_set ''request:url'' ''http://example.org/'',
      Call_var_set ''request:header:Accept'' ''*/*'',
      Call_var_set ''request:header:Host'' ''example.org'',
      Call_var_set ''request:body'' ''abc'',
      Call_http_request 0]"
  using http_request_call_order [of example_request fresh_host]
  by (simp add: example_request_def fresh_host_def host_of_def)

text \<open>
  Claim C7. Setting a variable and then getting it by the same name returns the bytes
  that were set, for every name and every byte sequence, the empty one included. The host
  is the one modelled from the spec; that it does not hand out the zero handle for the
  block holding the value is the spec's convention that zero means "not found".
\<close>

theorem var_set_get_roundtrip:
  "handles h (nblocks h) \<noteq> 0 \<Longrightarrow> fst (var_get name (var_set name v h)) = Some v"
  by (simp add: var_get_def var_set_def host_prims Let_def)

theorem var_set_get_roundtrip_witness:
  "handles fresh_host (nblocks fresh_host) \<noteq> 0 \<and>
   fst (var_get ''k'' (var_set ''k'' [] fresh_host)) = Some []"
proof -
  have nz: "handles fresh_host (nblocks fresh_host) \<noteq> 0"
    by (simp add: fresh_host_def host_of_def)
  show ?thesis using nz var_set_get_roundtrip [OF nz, of "''k''" "[]"] by simp
qed

text \<open>
  Claim C8. When the host's lookup returns the zero handle, \<^verbatim>\<open>Host::var_get\<close> and
  \<^verbatim>\<open>Host::config\<close> return an absent value; when the handle is not zero, they return a
  present value.
\<close>

theorem zero_handle_is_absent:
  "(fst (extism_var_get name h) = 0 \<longrightarrow> fst (var_get name h) = None) \<and>
   (fst (extism_var_get name h) \<noteq> 0 \<longrightarrow> (\<exists>v. fst (var_get name h) = Some v)) \<and>
   (fst (extism_config_get key h) = 0 \<longrightarrow> fst (config key h) = None) \<and>
   (fst (extism_config_get key h) \<noteq> 0 \<longrightarrow> (\<exists>v. fst (config key h) = Some v))"
  by (simp add: var_get_def config_def Let_def split: prod.splits)

theorem zero_handle_is_absent_witness:
  "fst (extism_var_get ''z'' (host_of [] [''k'' \<mapsto> ''v''] 0)) = 0 \<and>
   fst (var_get ''z'' (host_of [] [''k'' \<mapsto> ''v''] 0)) = None \<and>
   fst (extism_var_get ''k'' (host_of [] [''k'' \<mapsto> ''v''] 0)) \<noteq> 0 \<and>
   (\<exists>v. fst (var_get ''k'' (host_of [] [''k'' \<mapsto> ''v''] 0)) = Some v) \<and>
   fst (extism_config_get ''z'' (host_of [] [''k'' \<mapsto> ''v''] 0)) = 0 \<and>
   fst (config ''z'' (host_of [] [''k'' \<mapsto> ''v''] 0)) = None \<and>
   fst (extism_config_get ''k'' (host_of [] [''k'' \<mapsto> ''v''] 0)) \<noteq> 0 \<and>
   (\<exists>v. fst (config ''k'' (host_of [] [''k'' \<mapsto> ''v''] 0)) = Some v)"
proof -
  let ?h = "host_of [] [''k'' \<mapsto> ''v''] 0"
  have z: "fst (extism_var_get ''z'' ?h) = 0" "fst (extism_config_get ''z'' ?h) = 0"
    by (simp_all add: host_of_def host_prims Let_def)
  have k: "fst (extism_var_get ''k'' ?h) \<noteq> 0" "fst (extism_config_get ''k'' ?h) \<noteq> 0"
    by (simp_all add: host_of_def host_prims Let_def)
  show ?thesis
    using zero_handle_is_absent [of "''z''" ?h "''k''"]
      zero_handle_is_absent [of "''k''" ?h "''z''"] z k
    by simp
qed

text \<open>
  Claim C10. When the host returns the zero handle for \<^verbatim>\<open>response:body\<close>,
  \<^verbatim>\<open>HttpResponse::body\<close> returns the empty byte vector, which is also what it returns
  for a body that is present and empty; \<^verbatim>\<open>HttpResponse::header\<close> returns an absent
  value when the variable \<^verbatim>\<open>response:header:<name>\<close> is missing.
\<close>

theorem body_and_header_absent:
  "(fst (extism_var_get ''response:body'' h) = 0 \<longrightarrow> fst (HttpResponse_body r h) = []) \<and>
   (var_store h ''response:body'' = Some [] \<longrightarrow> fst (HttpResponse_body r h) = []) \<and>
   (var_store h (''response:header:'' @ name) = None \<longrightarrow>
      fst (HttpResponse_header r name h) = None)"
  by (simp add: HttpResponse_body_def HttpResponse_header_def host_prims Let_def
      split: prod.splits)

theorem body_and_header_absent_witness:
  "fst (extism_var_get ''response:body'' fresh_host) = 0 \<and>
   fst (HttpResponse_body \<lparr>ptr = 7\<rparr> fresh_host) = [] \<and>
   var_store (host_of [] [''response:body'' \<mapsto> []] 0) ''response:body'' = Some [] \<and>
   fst (HttpResponse_body \<lparr>ptr = 7\<rparr> (host_of [] [''response:body'' \<mapsto> []] 0)) = [] \<and>
   var_store fresh_host (''response:header:'' @ ''ETag'') = None \<and>
   fst (HttpResponse_header \<lparr>ptr = 7\<rparr> ''ETag'' fresh_host) = None"
proof -
  let ?h = "host_of [] [''response:body'' \<mapsto> []] 0"
  have a: "fst (extism_var_get ''response:body'' fresh_host) = 0"
    by (simp add: fresh_host_def host_of_def host_prims Let_def)
  have b: "var_store ?h ''response:body'' = Some []"
    by (simp add: host_of_def)
  have c: "var_store fresh_host (''response:header:'' @ ''ETag'') = None"
    by (simp add: fresh_host_def host_of_def)
  show ?thesis
    using body_and_header_absent [of fresh_host "\<lparr>ptr = 7\<rparr>" "''ETag''"]
      body_and_header_absent [of ?h "\<lparr>ptr = 7\<rparr>" "''ETag''"] a b c
    by simp
qed

end
